theory Spec2Isabelle
  imports Complex_Main "HOL-Library.AList"
begin

section \<open>Relative expression by the \<open>\<Delta>\<Delta>\<close>Ct method: the qPCR notebook of Figure S7B\<close>

text \<open>
  The notebook \<^verbatim>\<open>Mathis_Figure_S7B_qPCR.ipynb\<close> reads raw qPCR files into the nested
  dictionary \<^verbatim>\<open>cq_dict[gene][guide]\<close> of replicate lists and turns it, in four passes,
  into relative expression levels. The cells are embedded below in the order of the
  notebook, one definition for every loop body, with the names of the notebook.

  Conventions of the embedding.
  \<^item> A Python exception is a value \<open>Inl e\<close> of the type \<open>error + 'a\<close>; the exception aborts
    the cell, so every later step is skipped.
  \<^item> A dictionary is an association list with distinct keys in insertion order; the dictionary
    order of Python 2 is arbitrary, and no result below depends on it.
  \<^item> A Python float is a finite number, an infinity or \<open>nan\<close>. An operation gives the exact
    result where it is in the range of the doubles, an infinity where it overflows, and the
    exception \<^verbatim>\<open>OverflowError\<close> where Python raises it (\<^verbatim>\<open>math.pow\<close> and \<^verbatim>\<open>**\<close> on a Python
    float); \<^verbatim>\<open>math.pow\<close> underflows to zero. The rounding of the mantissa is outside the model.
  \<^item> \<^verbatim>\<open>float\<close>, the parser of the builtin library, is a parameter \<open>pf\<close> of the import, \<open>None\<close>
    where \<^verbatim>\<open>float\<close> raises \<^verbatim>\<open>ValueError\<close>; \<open>py_float\<close> below is the parser itself.
\<close>

subsection \<open>Exceptions, dictionaries, loops\<close>

datatype error = KeyError | IndexError | ValueError | IOError | OverflowError

definition ebind :: "error + 'a \<Rightarrow> ('a \<Rightarrow> error + 'b) \<Rightarrow> error + 'b" where
  "ebind m f = (case m of Inl e \<Rightarrow> Inl e | Inr x \<Rightarrow> f x)"

type_synonym 'v dict = "(string \<times> 'v) list"

text \<open>\<^verbatim>\<open>d[k]\<close>, \<^verbatim>\<open>d[k] = v\<close> and \<^verbatim>\<open>d.keys()\<close>.\<close>

definition getitem :: "'v dict \<Rightarrow> string \<Rightarrow> error + 'v" where
  "getitem d k = (case map_of d k of None \<Rightarrow> Inl KeyError | Some v \<Rightarrow> Inr v)"

definition setitem :: "'v dict \<Rightarrow> string \<Rightarrow> 'v \<Rightarrow> 'v dict" where
  "setitem d k v = AList.update k v d"

definition dict_keys :: "'v dict \<Rightarrow> string list" where
  "dict_keys d = map fst d"

text \<open>\<^verbatim>\<open>d[a][b]\<close> and \<^verbatim>\<open>d[a][b] = v\<close>: the inner dictionary is looked up first.\<close>

definition getitem2 :: "'v dict dict \<Rightarrow> string \<Rightarrow> string \<Rightarrow> error + 'v" where
  "getitem2 d a b = ebind (getitem d a) (\<lambda>t. getitem t b)"

definition setitem2 :: "'v dict dict \<Rightarrow> string \<Rightarrow> string \<Rightarrow> 'v \<Rightarrow> error + 'v dict dict" where
  "setitem2 d a b v = ebind (getitem d a) (\<lambda>t. Inr (setitem d a (setitem t b v)))"

text \<open>The view of a nested dictionary as a partial function of two keys.\<close>

definition lookup2 :: "'v dict dict \<Rightarrow> string \<Rightarrow> string \<Rightarrow> 'v option" where
  "lookup2 d a b = (case map_of d a of None \<Rightarrow> None | Some t \<Rightarrow> map_of t b)"

text \<open>\<^verbatim>\<open>for x in xs: body\<close>, the state threaded through, stopping at the first exception.\<close>

fun for_each :: "'a list \<Rightarrow> ('a \<Rightarrow> 's \<Rightarrow> error + 's) \<Rightarrow> 's \<Rightarrow> error + 's" where
  "for_each [] body s = Inr s"
| "for_each (x # xs) body s =
     (case body x s of Inl e \<Rightarrow> Inl e | Inr s' \<Rightarrow> for_each xs body s')"

text \<open>
  The loop header that every cell repeats:
  \<^verbatim>\<open>
  for file_name in file_list:
      file_date = file_name[0:8]
      for gene in gene_list[file_date]:
          body
  \<close>
\<close>

definition for_each_gene ::
  "string list \<Rightarrow> string list dict \<Rightarrow> (string \<Rightarrow> string \<Rightarrow> 's \<Rightarrow> error + 's) \<Rightarrow> 's \<Rightarrow> error + 's"
where
  "for_each_gene file_list gene_list body s =
     for_each file_list (\<lambda>file_name s.
       let file_date = take 8 file_name
       in ebind (getitem gene_list file_date) (\<lambda>genes. for_each genes (body file_date) s)) s"

text \<open>The genes that the loop header visits, in order (with repetitions).\<close>

definition genes_of :: "string list \<Rightarrow> string list dict \<Rightarrow> string list" where
  "genes_of file_list gene_list =
     concat (map (\<lambda>file_name. case map_of gene_list (take 8 file_name) of
                                 None \<Rightarrow> [] | Some genes \<Rightarrow> genes) file_list)"

subsection \<open>Floats\<close>

text \<open>
  The result of an operation on doubles whose exact value is \<open>r\<close>: an infinity from
  \<open>overflow_at\<close> on, the least magnitude that rounds to an infinity (half an ulp above the
  greatest double), and \<open>r\<close> itself below it.
\<close>

datatype pyfloat = Fin real | PInf | NInf | NaN

definition overflow_at :: real where
  "overflow_at = 2 ^ 1024 - 2 ^ 970"

definition rnd :: "real \<Rightarrow> pyfloat" where
  "rnd r = (if overflow_at \<le> r then PInf else if r \<le> - overflow_at then NInf else Fin r)"

text \<open>\<^verbatim>\<open>x + y\<close>, \<^verbatim>\<open>x - y\<close> and \<^verbatim>\<open>x * y\<close>; none of them raises, on Python or on numpy floats.\<close>

fun fneg :: "pyfloat \<Rightarrow> pyfloat" where
  "fneg (Fin a) = Fin (- a)"
| "fneg PInf = NInf"
| "fneg NInf = PInf"
| "fneg NaN = NaN"

fun fadd :: "pyfloat \<Rightarrow> pyfloat \<Rightarrow> pyfloat" where
  "fadd (Fin a) (Fin b) = rnd (a + b)"
| "fadd NaN y = NaN"
| "fadd x NaN = NaN"
| "fadd PInf NInf = NaN"
| "fadd NInf PInf = NaN"
| "fadd PInf y = PInf"
| "fadd x PInf = PInf"
| "fadd NInf y = NInf"
| "fadd x NInf = NInf"

definition fsub :: "pyfloat \<Rightarrow> pyfloat \<Rightarrow> pyfloat" where
  "fsub x y = fadd x (fneg y)"

fun fsgn :: "pyfloat \<Rightarrow> real" where
  "fsgn (Fin a) = sgn a"
| "fsgn PInf = 1"
| "fsgn NInf = - 1"
| "fsgn NaN = 0"

fun fmul :: "pyfloat \<Rightarrow> pyfloat \<Rightarrow> pyfloat" where
  "fmul (Fin a) (Fin b) = rnd (a * b)"
| "fmul NaN y = NaN"
| "fmul x NaN = NaN"
| "fmul x y = (let s = fsgn x * fsgn y in if s = 0 then NaN else if 0 < s then PInf else NInf)"

text \<open>\<^verbatim>\<open>x / d\<close> on numpy floats for a count or the root of a count \<open>d\<close>, which is not negative.\<close>

fun fdiv :: "pyfloat \<Rightarrow> real \<Rightarrow> pyfloat" where
  "fdiv (Fin a) d =
     (if d = 0 then (if a = 0 then NaN else if 0 < a then PInf else NInf) else rnd (a / d))"
| "fdiv PInf d = PInf"
| "fdiv NInf d = NInf"
| "fdiv NaN d = NaN"

text \<open>
  \<^verbatim>\<open>x**2\<close>. On a numpy float (what \<^verbatim>\<open>np.mean\<close> and \<^verbatim>\<open>stats.sem\<close> return) an overflow gives
  \<open>inf\<close> under a warning; on a Python float (what \<^verbatim>\<open>math.sqrt\<close> returns) it raises
  \<^verbatim>\<open>OverflowError\<close>.
\<close>

definition np_square :: "pyfloat \<Rightarrow> pyfloat" where
  "np_square x = fmul x x"

fun float_square :: "pyfloat \<Rightarrow> error + pyfloat" where
  "float_square (Fin a) = (if overflow_at \<le> a * a then Inl OverflowError else Inr (Fin (a * a)))"
| "float_square PInf = Inr PInf"
| "float_square NInf = Inr PInf"
| "float_square NaN = Inr NaN"

text \<open>
  \<^verbatim>\<open>np.sqrt\<close> returns \<open>nan\<close> on a negative argument; \<^verbatim>\<open>math.sqrt\<close> raises \<^verbatim>\<open>ValueError\<close> there.
\<close>

fun np_sqrt :: "pyfloat \<Rightarrow> pyfloat" where
  "np_sqrt (Fin a) = (if a < 0 then NaN else Fin (sqrt a))"
| "np_sqrt PInf = PInf"
| "np_sqrt NInf = NaN"
| "np_sqrt NaN = NaN"

fun math_sqrt :: "pyfloat \<Rightarrow> error + pyfloat" where
  "math_sqrt (Fin a) = (if a < 0 then Inl ValueError else Inr (Fin (sqrt a)))"
| "math_sqrt PInf = Inr PInf"
| "math_sqrt NInf = Inl ValueError"
| "math_sqrt NaN = Inr NaN"

text \<open>
  \<^verbatim>\<open>math.pow(2, x)\<close> raises \<^verbatim>\<open>OverflowError\<close> from \<open>x = 1024\<close> on, where the power leaves the
  range of the doubles, and returns \<open>0.0\<close> up to \<open>x = -1075\<close>, where the power is at most half
  the least positive double. \<^verbatim>\<open>np.log(2)\<close> is the natural logarithm of 2.
\<close>

fun math_pow2 :: "pyfloat \<Rightarrow> error + pyfloat" where
  "math_pow2 (Fin a) =
     (if 1024 \<le> a then Inl OverflowError else if a \<le> - 1075 then Inr (Fin 0)
      else Inr (Fin (2 powr a)))"
| "math_pow2 PInf = Inr PInf"
| "math_pow2 NInf = Inr (Fin 0)"
| "math_pow2 NaN = Inr NaN"

definition np_log2 :: pyfloat where
  "np_log2 = Fin (ln 2)"

text \<open>
  \<^verbatim>\<open>np.asarray\<close> of a list of floats: its values as doubles. \<^verbatim>\<open>np.add.reduce\<close>: the sum from
  left to right. (numpy adds eight values or more in another order, which changes the result
  by rounding only, or where a partial sum overflows and the sum does not.)
\<close>

fun dbl :: "pyfloat \<Rightarrow> pyfloat" where
  "dbl (Fin a) = rnd a"
| "dbl PInf = PInf"
| "dbl NInf = NInf"
| "dbl NaN = NaN"

definition asarray :: "pyfloat list \<Rightarrow> pyfloat list" where
  "asarray xs = map dbl xs"

definition add_reduce :: "pyfloat list \<Rightarrow> pyfloat" where
  "add_reduce a = foldl fadd (Fin 0) a"

text \<open>
  \<^verbatim>\<open>np.mean(xs)\<close>: the sum over the count, \<open>nan\<close> for the empty list (\<open>0/0\<close>, under a warning).
\<close>

definition np_mean :: "pyfloat list \<Rightarrow> pyfloat" where
  "np_mean xs = (let a = asarray xs in fdiv (add_reduce a) (real (length a)))"

text \<open>
  \<^verbatim>\<open>np.std(a, ddof=1)\<close>: the mean, the squares of the deviations from it, their sum over the
  count less one (over zero where the count is zero), and the root. \<^verbatim>\<open>stats.sem(xs)\<close> is
  \<^verbatim>\<open>np.std(a, ddof=1) / np.sqrt(n)\<close>, \<open>nan\<close> for fewer than two values.
\<close>

definition np_std1 :: "pyfloat list \<Rightarrow> pyfloat" where
  "np_std1 a =
     (let n = length a;
          arrmean = fdiv (add_reduce a) (real n);
          x = map (\<lambda>v. fsub v arrmean) a;
          x = map (\<lambda>v. fmul v v) x
      in np_sqrt (fdiv (add_reduce x) (real (n - 1))))"

definition stats_sem :: "pyfloat list \<Rightarrow> pyfloat" where
  "stats_sem xs = (let a = asarray xs in fdiv (np_std1 a) (sqrt (real (length a))))"

text \<open>A float that is not negative, or \<open>nan\<close>: what a sum of squares is.\<close>

definition nonneg :: "pyfloat \<Rightarrow> bool" where
  "nonneg x \<longleftrightarrow> x = NaN \<or> x = PInf \<or> (\<exists>r. x = Fin r \<and> 0 \<le> r \<and> r < overflow_at)"

subsection \<open>Import data\<close>

type_synonym cqs = "pyfloat list dict dict"

text \<open>
  The first two loops of the cell create the dictionary of every gene and then the guide
  keys of every gene but hcaT, each with an empty replicate list:
  \<^verbatim>\<open>
  cq_dict[gene] = {}
  \<close>
  and
  \<^verbatim>\<open>
  if gene != 'hcaT':
      cq_dict[gene][gene + '1_C'] = []
      cq_dict[gene][gene + '3_C'] = []
      cq_dict[gene]['Rand42_' + file_date] = []
      cq_dict['hcaT'][gene + '1_C'] = []
      cq_dict['hcaT'][gene + '3_C'] = []
      cq_dict['hcaT']['Rand42_' + file_date] = []
  \<close>
\<close>

definition reset_gene :: "string \<Rightarrow> string \<Rightarrow> cqs \<Rightarrow> error + cqs" where
  "reset_gene file_date gene cq_dict = Inr (setitem cq_dict gene [])"

definition init_gene_keys :: "string \<Rightarrow> string \<Rightarrow> cqs \<Rightarrow> error + cqs" where
  "init_gene_keys file_date gene cq_dict =
     (if gene \<noteq> ''hcaT'' then
        ebind (setitem2 cq_dict gene (gene @ ''1_C'') []) (\<lambda>cq_dict.
        ebind (setitem2 cq_dict gene (gene @ ''3_C'') []) (\<lambda>cq_dict.
        ebind (setitem2 cq_dict gene (''Rand42_'' @ file_date) []) (\<lambda>cq_dict.
        ebind (setitem2 cq_dict ''hcaT'' (gene @ ''1_C'') []) (\<lambda>cq_dict.
        ebind (setitem2 cq_dict ''hcaT'' (gene @ ''3_C'') []) (\<lambda>cq_dict.
        setitem2 cq_dict ''hcaT'' (''Rand42_'' @ file_date) [])))))
      else Inr cq_dict)"

definition init_keys :: "string list \<Rightarrow> string list dict \<Rightarrow> error + cqs" where
  "init_keys file_list gene_list =
     ebind (for_each_gene file_list gene_list reset_gene [])
       (for_each_gene file_list gene_list init_gene_keys)"

text \<open>\<^verbatim>\<open>line.split(',')\<close>: one field more than there are commas.\<close>

fun split :: "char \<Rightarrow> string \<Rightarrow> string list" where
  "split sep [] = [[]]"
| "split sep (c # cs) =
     (if c = sep then [] # split sep cs
      else (case split sep cs of [] \<Rightarrow> [[c]] | w # ws \<Rightarrow> (c # w) # ws))"

text \<open>\<^verbatim>\<open>sp[i]\<close> for an index that is not negative.\<close>

definition index :: "'a list \<Rightarrow> nat \<Rightarrow> error + 'a" where
  "index xs i = (if i < length xs then Inr (xs ! i) else Inl IndexError)"

text \<open>
  The body of the loop over the lines of a file:
  \<^verbatim>\<open>
  sp = line.split(',')
  if sp[2] != '' and sp[5] != '':
      if sp[2] in gene_list[file_date] and sp[4] in cq_dict[sp[2]].keys():
          cq_dict[sp[2]][sp[4]].append(float(sp[5]))
  \<close>
  Both \<^verbatim>\<open>and\<close> are short-circuit: \<^verbatim>\<open>sp[5]\<close> is not read when \<^verbatim>\<open>sp[2]\<close> is empty, and the
  dictionary of the gene is not read when the gene is not in the list.
\<close>

definition import_line ::
  "(string \<Rightarrow> pyfloat option) \<Rightarrow> string list dict \<Rightarrow> string \<Rightarrow> string \<Rightarrow> cqs \<Rightarrow> error + cqs" where
  "import_line pf gene_list file_date line cq_dict =
     (let sp = split (CHR '','') line in
      ebind (index sp 2) (\<lambda>gene.
      if gene = [] then Inr cq_dict else
      ebind (index sp 5) (\<lambda>cq.
      if cq = [] then Inr cq_dict else
      ebind (getitem gene_list file_date) (\<lambda>genes.
      if gene \<notin> set genes then Inr cq_dict else
      ebind (index sp 4) (\<lambda>guide.
      ebind (getitem cq_dict gene) (\<lambda>tbl.
      if guide \<notin> set (dict_keys tbl) then Inr cq_dict else
      ebind (getitem2 cq_dict gene guide) (\<lambda>xs.
      (case pf cq of
         None \<Rightarrow> Inl ValueError
       | Some v \<Rightarrow> setitem2 cq_dict gene guide (xs @ [v])))))))))"

text \<open>
  A file is the list of its lines, each with its line end.
  \<^verbatim>\<open>
  first_line = f.readline()
  for line in f:
  \<close>
  reads the first line and loops over the others.
\<close>

definition import_file ::
  "(string \<Rightarrow> pyfloat option) \<Rightarrow> string list dict \<Rightarrow> string \<Rightarrow> string list \<Rightarrow> cqs \<Rightarrow> error + cqs" where
  "import_file pf gene_list file_date lines cq_dict =
     for_each (drop 1 lines) (import_line pf gene_list file_date) cq_dict"

definition input_path :: string where
  "input_path = ''inputs/''"

text \<open>The file system \<open>fs\<close> gives the lines of a path, \<open>None\<close> where \<^verbatim>\<open>open\<close> raises.\<close>

definition import_data ::
  "(string \<Rightarrow> pyfloat option) \<Rightarrow> (string \<Rightarrow> string list option) \<Rightarrow> string list \<Rightarrow> string list dict \<Rightarrow>
   cqs \<Rightarrow> error + cqs" where
  "import_data pf fs file_list gene_list cq_dict =
     for_each file_list (\<lambda>file_name cq_dict.
       let file_date = take 8 file_name
       in (case fs (input_path @ file_name) of
             None \<Rightarrow> Inl IOError
           | Some lines \<Rightarrow> import_file pf gene_list file_date lines cq_dict)) cq_dict"

text \<open>
  Well correction, the manual exclusion of one replicate:
  \<^verbatim>\<open>cq_dict['hcaT']['Rand42_20200806'] = [23.48359183, 23.68555433]\<close>
\<close>

definition well_correction :: "cqs \<Rightarrow> error + cqs" where
  "well_correction cq_dict =
     setitem2 cq_dict ''hcaT'' ''Rand42_20200806'' [Fin 23.48359183, Fin 23.68555433]"

subsection \<open>Relative expression calculations\<close>

type_synonym table = "pyfloat dict dict"

text \<open>
  Find mean and sem of replicate values:
  \<^verbatim>\<open>
  cq_mean_dict[gene] = {}
  cq_sem_dict[gene] = {}
  for guide in cq_dict[gene].keys():
      cq_mean_dict[gene][guide] = np.mean(cq_dict[gene][guide])
      cq_sem_dict[gene][guide] = stats.sem(cq_dict[gene][guide])
  \<close>
\<close>

definition aggregate_guide :: "cqs \<Rightarrow> string \<Rightarrow> string \<Rightarrow> table \<times> table \<Rightarrow> error + table \<times> table" where
  "aggregate_guide cq_dict gene guide st =
     (case st of (cq_mean_dict, cq_sem_dict) \<Rightarrow>
        ebind (getitem2 cq_dict gene guide) (\<lambda>xs.
        ebind (setitem2 cq_mean_dict gene guide (np_mean xs)) (\<lambda>cq_mean_dict.
        ebind (getitem2 cq_dict gene guide) (\<lambda>xs.
        ebind (setitem2 cq_sem_dict gene guide (stats_sem xs)) (\<lambda>cq_sem_dict.
        Inr (cq_mean_dict, cq_sem_dict))))))"

definition aggregate_gene :: "cqs \<Rightarrow> string \<Rightarrow> string \<Rightarrow> table \<times> table \<Rightarrow> error + table \<times> table" where
  "aggregate_gene cq_dict file_date gene st =
     (case st of (cq_mean_dict, cq_sem_dict) \<Rightarrow>
        let cq_mean_dict = setitem cq_mean_dict gene [];
            cq_sem_dict = setitem cq_sem_dict gene []
        in ebind (getitem cq_dict gene) (\<lambda>tbl.
           for_each (dict_keys tbl) (aggregate_guide cq_dict gene) (cq_mean_dict, cq_sem_dict)))"

text \<open>
  Normalize by hcaT abundance:
  \<^verbatim>\<open>
  if gene != 'hcaT':
      d_cq_mean_dict[gene] = {}
      d_cq_sem_dict[gene] = {}
      for guide in cq_mean_dict[gene].keys():
          d_cq_mean_dict[gene][guide] = cq_mean_dict['hcaT'][guide] - cq_mean_dict[gene][guide]
          d_cq_sem_dict[gene][guide] = math.sqrt(cq_sem_dict['hcaT'][guide]**2 +
                                                 cq_sem_dict[gene][guide]**2)
  \<close>
\<close>

definition normalize_guide ::
  "table \<Rightarrow> table \<Rightarrow> string \<Rightarrow> string \<Rightarrow> table \<times> table \<Rightarrow> error + table \<times> table" where
  "normalize_guide cq_mean_dict cq_sem_dict gene guide st =
     (case st of (d_cq_mean_dict, d_cq_sem_dict) \<Rightarrow>
        ebind (getitem2 cq_mean_dict ''hcaT'' guide) (\<lambda>h.
        ebind (getitem2 cq_mean_dict gene guide) (\<lambda>g.
        ebind (setitem2 d_cq_mean_dict gene guide (fsub h g)) (\<lambda>d_cq_mean_dict.
        ebind (getitem2 cq_sem_dict ''hcaT'' guide) (\<lambda>hs.
        ebind (getitem2 cq_sem_dict gene guide) (\<lambda>gs.
        ebind (math_sqrt (fadd (np_square hs) (np_square gs))) (\<lambda>r.
        ebind (setitem2 d_cq_sem_dict gene guide r) (\<lambda>d_cq_sem_dict.
        Inr (d_cq_mean_dict, d_cq_sem_dict)))))))))"

definition normalize_gene ::
  "table \<Rightarrow> table \<Rightarrow> string \<Rightarrow> string \<Rightarrow> table \<times> table \<Rightarrow> error + table \<times> table" where
  "normalize_gene cq_mean_dict cq_sem_dict file_date gene st =
     (if gene \<noteq> ''hcaT'' then
        (case st of (d_cq_mean_dict, d_cq_sem_dict) \<Rightarrow>
           let d_cq_mean_dict = setitem d_cq_mean_dict gene [];
               d_cq_sem_dict = setitem d_cq_sem_dict gene []
           in ebind (getitem cq_mean_dict gene) (\<lambda>tbl.
              for_each (dict_keys tbl) (normalize_guide cq_mean_dict cq_sem_dict gene)
                (d_cq_mean_dict, d_cq_sem_dict)))
      else Inr st)"

text \<open>
  Normalize by target transcript abundance without CRISPRi:
  \<^verbatim>\<open>
  if gene != 'hcaT':
      dd_cq_mean_dict[gene] = {}
      dd_cq_sem_dict[gene] = {}
      for guide in d_cq_mean_dict[gene].keys():
          dd_cq_mean_dict[gene][guide] = d_cq_mean_dict[gene][guide] - \
                                         d_cq_mean_dict[gene]['Rand42_' + file_date]
          dd_cq_sem_dict[gene][guide] = math.sqrt(d_cq_sem_dict[gene][guide]**2 +
                                                  d_cq_sem_dict[gene]['Rand42_' + file_date]**2)
  \<close>
\<close>

definition baseline_guide ::
  "table \<Rightarrow> table \<Rightarrow> string \<Rightarrow> string \<Rightarrow> string \<Rightarrow> table \<times> table \<Rightarrow> error + table \<times> table" where
  "baseline_guide d_cq_mean_dict d_cq_sem_dict file_date gene guide st =
     (case st of (dd_cq_mean_dict, dd_cq_sem_dict) \<Rightarrow>
        ebind (getitem2 d_cq_mean_dict gene guide) (\<lambda>a.
        ebind (getitem2 d_cq_mean_dict gene (''Rand42_'' @ file_date)) (\<lambda>b.
        ebind (setitem2 dd_cq_mean_dict gene guide (fsub a b)) (\<lambda>dd_cq_mean_dict.
        ebind (getitem2 d_cq_sem_dict gene guide) (\<lambda>sa.
        ebind (float_square sa) (\<lambda>sa2.
        ebind (getitem2 d_cq_sem_dict gene (''Rand42_'' @ file_date)) (\<lambda>sb.
        ebind (float_square sb) (\<lambda>sb2.
        ebind (math_sqrt (fadd sa2 sb2)) (\<lambda>r.
        ebind (setitem2 dd_cq_sem_dict gene guide r) (\<lambda>dd_cq_sem_dict.
        Inr (dd_cq_mean_dict, dd_cq_sem_dict)))))))))))"

definition baseline_gene ::
  "table \<Rightarrow> table \<Rightarrow> string \<Rightarrow> string \<Rightarrow> table \<times> table \<Rightarrow> error + table \<times> table" where
  "baseline_gene d_cq_mean_dict d_cq_sem_dict file_date gene st =
     (if gene \<noteq> ''hcaT'' then
        (case st of (dd_cq_mean_dict, dd_cq_sem_dict) \<Rightarrow>
           let dd_cq_mean_dict = setitem dd_cq_mean_dict gene [];
               dd_cq_sem_dict = setitem dd_cq_sem_dict gene []
           in ebind (getitem d_cq_mean_dict gene) (\<lambda>tbl.
              for_each (dict_keys tbl) (baseline_guide d_cq_mean_dict d_cq_sem_dict file_date gene)
                (dd_cq_mean_dict, dd_cq_sem_dict)))
      else Inr st)"

text \<open>
  Transform to a linear scale:
  \<^verbatim>\<open>
  if gene != 'hcaT':
      dd_cq_mean_lin_dict[gene] = {}
      dd_cq_sem_lin_dict[gene] = {}
      for guide in dd_cq_mean_dict[gene].keys():
          dd_cq_mean_lin_dict[gene][guide] = math.pow(2, dd_cq_mean_dict[gene][guide])
          dd_cq_sem_lin_dict[gene][guide] = np.log(2) * dd_cq_sem_dict[gene][guide] * \
                                            dd_cq_mean_lin_dict[gene][guide]
  \<close>
\<close>

definition linearize_guide ::
  "table \<Rightarrow> table \<Rightarrow> string \<Rightarrow> string \<Rightarrow> table \<times> table \<Rightarrow> error + table \<times> table" where
  "linearize_guide dd_cq_mean_dict dd_cq_sem_dict gene guide st =
     (case st of (dd_cq_mean_lin_dict, dd_cq_sem_lin_dict) \<Rightarrow>
        ebind (getitem2 dd_cq_mean_dict gene guide) (\<lambda>a.
        ebind (math_pow2 a) (\<lambda>p.
        ebind (setitem2 dd_cq_mean_lin_dict gene guide p) (\<lambda>dd_cq_mean_lin_dict.
        ebind (getitem2 dd_cq_sem_dict gene guide) (\<lambda>s.
        ebind (getitem2 dd_cq_mean_lin_dict gene guide) (\<lambda>l.
        ebind (setitem2 dd_cq_sem_lin_dict gene guide (fmul (fmul np_log2 s) l)) (\<lambda>dd_cq_sem_lin_dict.
        Inr (dd_cq_mean_lin_dict, dd_cq_sem_lin_dict))))))))"

definition linearize_gene ::
  "table \<Rightarrow> table \<Rightarrow> string \<Rightarrow> string \<Rightarrow> table \<times> table \<Rightarrow> error + table \<times> table" where
  "linearize_gene dd_cq_mean_dict dd_cq_sem_dict file_date gene st =
     (if gene \<noteq> ''hcaT'' then
        (case st of (dd_cq_mean_lin_dict, dd_cq_sem_lin_dict) \<Rightarrow>
           let dd_cq_mean_lin_dict = setitem dd_cq_mean_lin_dict gene [];
               dd_cq_sem_lin_dict = setitem dd_cq_sem_lin_dict gene []
           in ebind (getitem dd_cq_mean_dict gene) (\<lambda>tbl.
              for_each (dict_keys tbl) (linearize_guide dd_cq_mean_dict dd_cq_sem_dict gene)
                (dd_cq_mean_lin_dict, dd_cq_sem_lin_dict)))
      else Inr st)"

text \<open>
  Each of the four parts of the cell is a pass over the genes of every file, its two
  dictionaries starting empty.
\<close>

definition aggregate_pass :: "string list \<Rightarrow> string list dict \<Rightarrow> cqs \<Rightarrow> error + table \<times> table" where
  "aggregate_pass file_list gene_list cq_dict =
     for_each_gene file_list gene_list (aggregate_gene cq_dict) ([], [])"

definition normalize_pass ::
  "string list \<Rightarrow> string list dict \<Rightarrow> table \<Rightarrow> table \<Rightarrow> error + table \<times> table" where
  "normalize_pass file_list gene_list cq_mean_dict cq_sem_dict =
     for_each_gene file_list gene_list (normalize_gene cq_mean_dict cq_sem_dict) ([], [])"

definition baseline_pass ::
  "string list \<Rightarrow> string list dict \<Rightarrow> table \<Rightarrow> table \<Rightarrow> error + table \<times> table" where
  "baseline_pass file_list gene_list d_cq_mean_dict d_cq_sem_dict =
     for_each_gene file_list gene_list (baseline_gene d_cq_mean_dict d_cq_sem_dict) ([], [])"

definition linearize_pass ::
  "string list \<Rightarrow> string list dict \<Rightarrow> table \<Rightarrow> table \<Rightarrow> error + table \<times> table" where
  "linearize_pass file_list gene_list dd_cq_mean_dict dd_cq_sem_dict =
     for_each_gene file_list gene_list (linearize_gene dd_cq_mean_dict dd_cq_sem_dict) ([], [])"

text \<open>The whole cell: the four passes in sequence.\<close>

record results =
  cq_mean_dict :: table
  cq_sem_dict :: table
  d_cq_mean_dict :: table
  d_cq_sem_dict :: table
  dd_cq_mean_dict :: table
  dd_cq_sem_dict :: table
  dd_cq_mean_lin_dict :: table
  dd_cq_sem_lin_dict :: table

definition relative_expression :: "string list \<Rightarrow> string list dict \<Rightarrow> cqs \<Rightarrow> error + results" where
  "relative_expression file_list gene_list cq_dict =
     ebind (aggregate_pass file_list gene_list cq_dict) (\<lambda>(cm, cs).
     ebind (normalize_pass file_list gene_list cm cs) (\<lambda>(dm, ds).
     ebind (baseline_pass file_list gene_list dm ds) (\<lambda>(ddm, dds).
     ebind (linearize_pass file_list gene_list ddm dds) (\<lambda>(lm, ls).
     Inr \<lparr>cq_mean_dict = cm, cq_sem_dict = cs, d_cq_mean_dict = dm, d_cq_sem_dict = ds,
          dd_cq_mean_dict = ddm, dd_cq_sem_dict = dds,
          dd_cq_mean_lin_dict = lm, dd_cq_sem_lin_dict = ls\<rparr>))))"

text \<open>The root of the sum of the squares, which \<^verbatim>\<open>math.sqrt(a**2 + b**2)\<close> computes.\<close>

definition root_sum_squares :: "pyfloat \<Rightarrow> pyfloat \<Rightarrow> pyfloat" where
  "root_sum_squares a b = np_sqrt (fadd (fmul a a) (fmul b b))"

text \<open>The SEM on the linear scale, \<^verbatim>\<open>np.log(2) * s * l\<close> for the fold change \<open>l\<close>.\<close>

definition lin_sem :: "pyfloat \<Rightarrow> pyfloat \<Rightarrow> pyfloat" where
  "lin_sem s l = fmul (fmul np_log2 s) l"

text \<open>The value of a call that returns.\<close>

definition returned :: "error + 'a \<Rightarrow> 'a option" where
  "returned m = (case m of Inl e \<Rightarrow> None | Inr x \<Rightarrow> Some x)"

text \<open>The fold change of a looked-up \<open>\<Delta>\<Delta>\<close>Cq, where \<^verbatim>\<open>math.pow\<close> returns.\<close>

definition pow2_of :: "pyfloat option \<Rightarrow> pyfloat option" where
  "pow2_of x = (case x of None \<Rightarrow> None | Some a \<Rightarrow> returned (math_pow2 a))"

text \<open>A function of two values, of two lookups: defined where both are.\<close>

definition opt2 :: "('a \<Rightarrow> 'b \<Rightarrow> 'c) \<Rightarrow> 'a option \<Rightarrow> 'b option \<Rightarrow> 'c option" where
  "opt2 f x y = (case x of None \<Rightarrow> None | Some a \<Rightarrow> map_option (f a) y)"

subsection \<open>When the calculation returns\<close>

text \<open>
  The calculation reads no key that is not there exactly when every date of the file list has
  its gene list, every gene of these lists has its dictionary of replicate lists, and every
  gene but hcaT that has a guide at all has the reference guide \<open>Rand42_date\<close> of its file
  among its guides and each of its guides among those of hcaT, hcaT being one of the genes.
\<close>

definition keyed :: "string list \<Rightarrow> string list dict \<Rightarrow> 'v dict dict \<Rightarrow> bool" where
  "keyed fl gl cq \<longleftrightarrow>
     list_all (\<lambda>f. case map_of gl (take 8 f) of
         None \<Rightarrow> False
       | Some genes \<Rightarrow>
           list_all (\<lambda>g. case map_of cq g of
               None \<Rightarrow> False
             | Some tbl \<Rightarrow>
                 g = ''hcaT'' \<or> tbl = [] \<or>
                 (''hcaT'' \<in> set (genes_of fl gl) \<and>
                  ''Rand42_'' @ take 8 f \<in> set (dict_keys tbl) \<and>
                  list_all (\<lambda>b. lookup2 cq ''hcaT'' b \<noteq> None) (dict_keys tbl))) genes) fl"

text \<open>Two dictionaries with the same genes and, for every gene, the same guides.\<close>

definition same_keys :: "'v dict dict \<Rightarrow> 'v dict dict \<Rightarrow> bool" where
  "same_keys cq' cq \<longleftrightarrow>
     (\<forall>a. map_of cq' a \<noteq> None \<longleftrightarrow> map_of cq a \<noteq> None) \<and>
     (\<forall>a b. lookup2 cq' a b \<noteq> None \<longleftrightarrow> lookup2 cq a b \<noteq> None)"

subsection \<open>The notebook\<close>

text \<open>The constants of the second cell and the cells in sequence.\<close>

definition file_list :: "string list" where
  "file_list = [''20200806_luna_rtqpcr_quant.csv'', ''20200813_luna_rtqpcr_quant.csv'']"

definition gene_list :: "string list dict" where
  "gene_list =
     [(''20200806'', [''hcaT'', ''topA'', ''ribB'']),
      (''20200813'', [''hcaT'', ''ispA'', ''mukF'', ''tadA''])]"

definition pipeline ::
  "(string \<Rightarrow> pyfloat option) \<Rightarrow> (string \<Rightarrow> string list option) \<Rightarrow> string list \<Rightarrow> string list dict \<Rightarrow>
   error + results" where
  "pipeline pf fs fl gl =
     ebind (init_keys fl gl) (\<lambda>cq_dict.
     ebind (import_data pf fs fl gl cq_dict) (\<lambda>cq_dict.
     relative_expression fl gl cq_dict))"

definition notebook ::
  "(string \<Rightarrow> pyfloat option) \<Rightarrow> (string \<Rightarrow> string list option) \<Rightarrow> error + results" where
  "notebook pf fs =
     ebind (init_keys file_list gene_list) (\<lambda>cq_dict.
     ebind (import_data pf fs file_list gene_list cq_dict) (\<lambda>cq_dict.
     ebind (well_correction cq_dict) (\<lambda>cq_dict.
     relative_expression file_list gene_list cq_dict)))"

subsection \<open>The parser of floats\<close>

text \<open>
  The theorems on the import hold for every parser \<open>pf\<close>. \<open>py_float\<close> is \<^verbatim>\<open>float\<close> on a string
  of Python 2: white space around an optional sign and then \<^verbatim>\<open>inf\<close>, \<^verbatim>\<open>infinity\<close> or \<^verbatim>\<open>nan\<close>
  in any case of the letters, or a decimal number, which is digits with an optional point
  and an optional exponent. A decimal number beyond the range of the doubles reads as an
  infinity; one within the range reads as itself, its rounding to a double left out.
\<close>

definition is_space :: "char \<Rightarrow> bool" where
  "is_space c \<longleftrightarrow> c \<in> set [CHR '' '', CHR 0x09, CHR 0x0A, CHR 0x0B, CHR 0x0C, CHR 0x0D]"

definition strip :: "string \<Rightarrow> string" where
  "strip s = rev (dropWhile is_space (rev (dropWhile is_space s)))"

definition lower :: "char \<Rightarrow> char" where
  "lower c =
     (case map_of (zip ''ABCDEFGHIJKLMNOPQRSTUVWXYZ'' ''abcdefghijklmnopqrstuvwxyz'') c of
        None \<Rightarrow> c
      | Some l \<Rightarrow> l)"

definition digit_val :: "char \<Rightarrow> nat option" where
  "digit_val c = (let n = (of_char c :: nat) in if 48 \<le> n \<and> n \<le> 57 then Some (n - 48) else None)"

fun digits_val :: "nat \<Rightarrow> string \<Rightarrow> nat option" where
  "digits_val acc [] = Some acc"
| "digits_val acc (c # cs) =
     (case digit_val c of None \<Rightarrow> None | Some d \<Rightarrow> digits_val (10 * acc + d) cs)"

text \<open>Digits with an optional point, a digit at least on one side of it.\<close>

definition mantissa :: "string \<Rightarrow> real option" where
  "mantissa s =
     (let ip = takeWhile (\<lambda>c. c \<noteq> CHR ''.'') s;
          fp = drop 1 (dropWhile (\<lambda>c. c \<noteq> CHR ''.'') s)
      in if ip = [] \<and> fp = [] then None
         else (case digits_val 0 ip of
                 None \<Rightarrow> None
               | Some i \<Rightarrow> (case digits_val 0 fp of
                             None \<Rightarrow> None
                           | Some f \<Rightarrow> Some (real i + real f / 10 ^ length fp))))"

text \<open>The exponent after the letter: an optional sign and one digit at least.\<close>

definition exponent :: "string \<Rightarrow> int option" where
  "exponent s =
     (case s of
        [] \<Rightarrow> None
      | c # cs \<Rightarrow>
          if c = CHR ''-'' then (if cs = [] then None else map_option (\<lambda>n. - int n) (digits_val 0 cs))
          else if c = CHR ''+'' then (if cs = [] then None else map_option int (digits_val 0 cs))
          else map_option int (digits_val 0 (c # cs)))"

definition scale :: "real \<Rightarrow> int \<Rightarrow> real" where
  "scale m e = (if 0 \<le> e then m * 10 ^ nat e else m / 10 ^ nat (- e))"

definition is_e :: "char \<Rightarrow> bool" where
  "is_e c \<longleftrightarrow> c = CHR ''e'' \<or> c = CHR ''E''"

definition unsigned_float :: "string \<Rightarrow> pyfloat option" where
  "unsigned_float s =
     (let l = map lower s in
      if l = ''inf'' \<or> l = ''infinity'' then Some PInf
      else if l = ''nan'' then Some NaN
      else
        (let m = takeWhile (\<lambda>c. \<not> is_e c) s;
             r = dropWhile (\<lambda>c. \<not> is_e c) s
         in (case mantissa m of
               None \<Rightarrow> None
             | Some v \<Rightarrow>
                 if r = [] then Some (rnd v)
                 else (case exponent (tl r) of
                         None \<Rightarrow> None
                       | Some e \<Rightarrow> Some (rnd (scale v e))))))"

definition py_float :: "string \<Rightarrow> pyfloat option" where
  "py_float s =
     (case strip s of
        [] \<Rightarrow> None
      | c # cs \<Rightarrow> if c = CHR ''-'' then map_option fneg (unsigned_float cs)
                 else if c = CHR ''+'' then unsigned_float cs
                 else unsigned_float (c # cs))"

subsection \<open>Example inputs\<close>

text \<open>One file with one gene beside hcaT, and the replicate lists of the worked example.\<close>

definition example_files :: "string list" where
  "example_files = [''20200806_luna_rtqpcr_quant.csv'']"

definition example_genes :: "string list dict" where
  "example_genes = [(''20200806'', [''hcaT'', ''gene''])]"

definition example_cq :: cqs where
  "example_cq =
     [(''hcaT'', [(''gene1_C'', [Fin 23, Fin 23]), (''Rand42_20200806'', [Fin 23, Fin 23])]),
      (''gene'', [(''gene1_C'', [Fin 22, Fin 22]), (''Rand42_20200806'', [Fin 23, Fin 23])])]"

text \<open>The same with a single replicate of the gene under its guide.\<close>

definition short_cq :: cqs where
  "short_cq =
     [(''hcaT'', [(''gene1_C'', [Fin 23, Fin 23]), (''Rand42_20200806'', [Fin 23, Fin 23])]),
      (''gene'', [(''gene1_C'', [Fin 22]), (''Rand42_20200806'', [Fin 23, Fin 23])])]"

text \<open>The same without the guide of the gene among the guides of hcaT.\<close>

definition missing_cq :: cqs where
  "missing_cq =
     [(''hcaT'', [(''Rand42_20200806'', [Fin 23, Fin 23])]),
      (''gene'', [(''gene1_C'', [Fin 22, Fin 22]), (''Rand42_20200806'', [Fin 23, Fin 23])])]"



text \<open>
  Replicates with a \<open>\<Delta>\<Delta>\<close>Cq of \<open>-1100\<close>, of \<open>1100\<close>, and of \<open>0\<close> at 1100 cycles.
\<close>

definition deep_cq :: cqs where
  "deep_cq =
     [(''hcaT'', [(''gene1_C'', [Fin 23, Fin 23]), (''Rand42_20200806'', [Fin 23, Fin 23])]),
      (''gene'', [(''gene1_C'', [Fin 1123, Fin 1123]), (''Rand42_20200806'', [Fin 23, Fin 23])])]"

definition high_cq :: cqs where
  "high_cq =
     [(''hcaT'', [(''gene1_C'', [Fin 1123, Fin 1123]), (''Rand42_20200806'', [Fin 23, Fin 23])]),
      (''gene'', [(''gene1_C'', [Fin 23, Fin 23]), (''Rand42_20200806'', [Fin 23, Fin 23])])]"


text \<open>
  Every replicate of the gene \<open>G\<close> under the guide \<open>Gd\<close> lowered by the offset \<open>k\<close>: the
  distance of the group from the reference, \<open>\<Delta>Cq = hcaT - gene\<close>, grows by \<open>k\<close>.
\<close>

definition shift_group :: "cqs \<Rightarrow> string \<Rightarrow> string \<Rightarrow> real \<Rightarrow> cqs" where
  "shift_group cq G Gd k =
     map (\<lambda>(g, tbl). (g, map (\<lambda>(b, xs). (b, if g = G \<and> b = Gd then map (\<lambda>x. fsub x (Fin k)) xs else xs)) tbl)) cq"

text \<open>
  The arithmetic mean of real numbers. Replicate lists whose sums stay far from the overflow:
  a value at least, a million at most, each of a magnitude of a million at most. Replicate
  lists of cycle numbers: two values at least, a million at most, each between 0 and 500.
\<close>

definition mean :: "real list \<Rightarrow> real" where
  "mean rs = sum_list rs / real (length rs)"

definition moderate :: "real list \<Rightarrow> bool" where
  "moderate rs \<longleftrightarrow> rs \<noteq> [] \<and> length rs \<le> 1000000 \<and> list_all (\<lambda>r. \<bar>r\<bar> \<le> 1000000) rs"

definition cq_values :: "real list \<Rightarrow> bool" where
  "cq_values rs \<longleftrightarrow> 2 \<le> length rs \<and> length rs \<le> 1000000 \<and> list_all (\<lambda>r. 0 \<le> r \<and> r \<le> 500) rs"

text \<open>
  A file of the example: the replicates of the gene under its guide and under the reference
  guide, and those of hcaT under the reference guide only. The dictionary after the key
  initialization, and after the import of this file.
\<close>

definition example_lines :: "string list" where
  "example_lines =
     [''Well,Fluor,Target,Content,Sample,Cq,SQ\<newline>'',
      ''A01,SYBR,gene,Unkn,gene1_C,22.0,\<newline>'',
      ''A02,SYBR,gene,Unkn,gene1_C,22.0,\<newline>'',
      ''A03,SYBR,gene,Unkn,Rand42_20200806,23.0,\<newline>'',
      ''A04,SYBR,gene,Unkn,Rand42_20200806,23.0,\<newline>'',
      ''A05,SYBR,hcaT,Unkn,Rand42_20200806,23.0,\<newline>'',
      ''A06,SYBR,hcaT,Unkn,Rand42_20200806,23.0,\<newline>'']"

definition example_fs :: "string \<Rightarrow> string list option" where
  "example_fs path =
     (if path = ''inputs/20200806_luna_rtqpcr_quant.csv'' then Some example_lines else None)"

definition example_initial_cq :: cqs where
  "example_initial_cq =
     [(''hcaT'', [(''gene1_C'', []), (''gene3_C'', []), (''Rand42_20200806'', [])]),
      (''gene'', [(''gene1_C'', []), (''gene3_C'', []), (''Rand42_20200806'', [])])]"

definition example_imported_cq :: cqs where
  "example_imported_cq =
     [(''hcaT'', [(''gene1_C'', []), (''gene3_C'', []), (''Rand42_20200806'', [Fin 23, Fin 23])]),
      (''gene'', [(''gene1_C'', [Fin 22, Fin 22]), (''gene3_C'', []), (''Rand42_20200806'', [Fin 23, Fin 23])])]"

section \<open>Properties\<close>

subsection \<open>Exceptions, dictionaries, loops\<close>

lemma ebind_simps [simp]: "ebind (Inl e) f = Inl e" "ebind (Inr x) f = f x"
  by (simp_all add: ebind_def)

lemma ebind_eq_Inr: "ebind m f = Inr y \<longleftrightarrow> (\<exists>x. m = Inr x \<and> f x = Inr y)"
  by (cases m) simp_all

lemma ebind_eq_Inl: "ebind m f = Inl e \<longleftrightarrow> m = Inl e \<or> (\<exists>x. m = Inr x \<and> f x = Inl e)"
  by (cases m) simp_all

lemma getitem_eq_Inr: "getitem d k = Inr v \<longleftrightarrow> map_of d k = Some v"
  by (simp add: getitem_def split: option.splits)

lemma getitem_eq_Inl: "getitem d k = Inl e \<longleftrightarrow> map_of d k = None \<and> e = KeyError"
  by (auto simp add: getitem_def split: option.splits)

lemma getitem2_eq_Inr: "getitem2 d a b = Inr v \<longleftrightarrow> lookup2 d a b = Some v"
  by (auto simp add: getitem2_def lookup2_def ebind_eq_Inr getitem_eq_Inr split: option.splits)

lemma getitem2_eq_Inl: "getitem2 d a b = Inl e \<longleftrightarrow> lookup2 d a b = None \<and> e = KeyError"
  by (auto simp add: getitem2_def lookup2_def ebind_eq_Inl getitem_eq_Inr getitem_eq_Inl split: option.splits)

lemma map_of_setitem: "map_of (setitem d k v) = (map_of d)(k \<mapsto> v)"
  by (simp add: setitem_def update_conv')

lemma lookup2_setitem:
  "lookup2 (setitem d a t) a' b = (if a' = a then map_of t b else lookup2 d a' b)"
  by (simp add: lookup2_def map_of_setitem)

lemma setitem2_eq_Inr:
  "setitem2 d a b v = Inr d' \<longleftrightarrow> (\<exists>t. map_of d a = Some t \<and> d' = setitem d a (setitem t b v))"
  by (auto simp add: setitem2_def ebind_eq_Inr getitem_eq_Inr)

lemma setitem2_eq_Inl: "setitem2 d a b v = Inl e \<longleftrightarrow> map_of d a = None \<and> e = KeyError"
  by (auto simp add: setitem2_def ebind_eq_Inl getitem_eq_Inl)

lemma lookup2_setitem2:
  "setitem2 d a b v = Inr d' \<Longrightarrow>
   lookup2 d' a' b' = (if a' = a \<and> b' = b then Some v else lookup2 d a' b')"
  by (auto simp add: setitem2_eq_Inr lookup2_setitem map_of_setitem lookup2_def)

lemma dom_setitem2:
  "setitem2 d a b v = Inr d' \<Longrightarrow> dom (map_of d') = dom (map_of d)"
  by (auto simp add: setitem2_eq_Inr map_of_setitem split: if_splits)

lemma set_dict_keys: "set (dict_keys t) = dom (map_of t)"
  by (simp add: dict_keys_def dom_map_of_conv_image_fst)

lemma for_each_inv:
  assumes "for_each xs body s = Inr s'" and "I s"
    and "\<And>x s s'. x \<in> set xs \<Longrightarrow> I s \<Longrightarrow> body x s = Inr s' \<Longrightarrow> I s'"
  shows "I s'"
  using assms
proof (induction xs arbitrary: s)
  case Nil
  then show ?case by simp
next
  case (Cons x xs)
  from Cons.prems(1) obtain s1 where b: "body x s = Inr s1" and r: "for_each xs body s1 = Inr s'"
    by (auto split: sum.splits)
  have i1: "I s1" using Cons.prems(3) [of x s s1] Cons.prems(2) b by simp
  have step: "I t'" if "y \<in> set xs" "I t" "body y t = Inr t'" for y t t'
    using Cons.prems(3) [of y t t'] that by simp
  from Cons.IH [OF r i1 step] show ?case .
qed

lemma for_each_Inl:
  assumes "for_each xs body s = Inl e"
  shows "\<exists>x s. x \<in> set xs \<and> body x s = Inl e"
  using assms
proof (induction xs arbitrary: s)
  case Nil
  then show ?case by simp
next
  case (Cons x xs)
  show ?case
  proof (cases "body x s")
    case (Inl e')
    then show ?thesis using Cons.prems by auto
  next
    case (Inr s1)
    then have "for_each xs body s1 = Inl e" using Cons.prems by simp
    from Cons.IH [OF this] show ?thesis by auto
  qed
qed

lemma genes_of_Cons:
  "genes_of (f # fl) gl =
     (case map_of gl (take 8 f) of None \<Rightarrow> [] | Some genes \<Rightarrow> genes) @ genes_of fl gl"
  by (simp add: genes_of_def)

lemma in_genes_of:
  "G \<in> set (genes_of fl gl) \<longleftrightarrow>
     (\<exists>f\<in>set fl. \<exists>genes. map_of gl (take 8 f) = Some genes \<and> G \<in> set genes)"
  by (induction fl) (auto simp add: genes_of_Cons genes_of_def split: option.splits)

lemma for_each_gene_Nil: "for_each_gene [] gl body s = Inr s"
  by (simp add: for_each_gene_def)

lemma for_each_gene_Cons:
  "for_each_gene (f # fl) gl body s =
     ebind (ebind (getitem gl (take 8 f)) (\<lambda>genes. for_each genes (body (take 8 f)) s))
       (for_each_gene fl gl body)"
  by (simp add: for_each_gene_def ebind_def Let_def split: sum.splits)

lemma for_each_gene_inv:
  assumes "for_each_gene fl gl body s = Inr s'" and "I s"
    and "\<And>f genes g t t'. f \<in> set fl \<Longrightarrow> map_of gl (take 8 f) = Some genes \<Longrightarrow> g \<in> set genes \<Longrightarrow>
           I t \<Longrightarrow> body (take 8 f) g t = Inr t' \<Longrightarrow> I t'"
  shows "I s'"
  using assms
proof (induction fl arbitrary: s)
  case Nil
  then show ?case by (simp add: for_each_gene_Nil)
next
  case (Cons f fl)
  from Cons.prems(1) obtain genes s1 where
    g: "map_of gl (take 8 f) = Some genes" and
    l: "for_each genes (body (take 8 f)) s = Inr s1" and
    r: "for_each_gene fl gl body s1 = Inr s'"
    by (auto simp add: for_each_gene_Cons ebind_eq_Inr getitem_eq_Inr)
  have i1: "I s1"
    by (rule for_each_inv [where I = I, OF l Cons.prems(2)]) (rule Cons.prems(3) [OF _ g], simp_all)
  have step: "I t'" if "f' \<in> set fl" "map_of gl (take 8 f') = Some genes'" "g' \<in> set genes'"
    "I t" "body (take 8 f') g' t = Inr t'" for f' genes' g' t t'
    using Cons.prems(3) [of f' genes' g' t t'] that by simp
  from Cons.IH [OF r i1 step] show ?case .
qed

lemma for_each_establish:
  assumes "for_each xs body s = Inr s'" and "G \<in> set xs \<or> Q s"
    and "\<And>t t'. body G t = Inr t' \<Longrightarrow> Q t'"
    and "\<And>g t t'. g \<noteq> G \<Longrightarrow> body g t = Inr t' \<Longrightarrow> Q t \<Longrightarrow> Q t'"
  shows "Q s'"
  using assms(1,2)
proof (induction xs arbitrary: s)
  case Nil
  then show ?case by simp
next
  case (Cons x xs)
  from Cons.prems(1) obtain s1 where b: "body x s = Inr s1" and r: "for_each xs body s1 = Inr s'"
    by (auto split: sum.splits)
  have "G \<in> set xs \<or> Q s1"
  proof (cases "x = G")
    case True
    then show ?thesis using assms(3) b by auto
  next
    case False
    then show ?thesis using assms(4) [OF False b] Cons.prems(2) by auto
  qed
  from Cons.IH [OF r this] show ?case .
qed

lemma for_each_gene_establish:
  assumes "for_each_gene fl gl body s = Inr s'" and "G \<in> set (genes_of fl gl)"
    and est: "\<And>f genes t t'. f \<in> set fl \<Longrightarrow> map_of gl (take 8 f) = Some genes \<Longrightarrow> G \<in> set genes \<Longrightarrow>
           body (take 8 f) G t = Inr t' \<Longrightarrow> Q t'"
    and pres: "\<And>d g t t'. g \<noteq> G \<Longrightarrow> body d g t = Inr t' \<Longrightarrow> Q t \<Longrightarrow> Q t'"
  shows "Q s'"
proof -
  have "G \<in> set (genes_of fl gl) \<or> Q s" using assms(2) by simp
  with assms(1) est show ?thesis
  proof (induction fl arbitrary: s)
    case Nil
    then show ?case by (simp add: for_each_gene_Nil genes_of_def)
  next
    case (Cons f fl)
    from Cons.prems(1) obtain genes s1 where
      g: "map_of gl (take 8 f) = Some genes" and
      l: "for_each genes (body (take 8 f)) s = Inr s1" and
      r: "for_each_gene fl gl body s1 = Inr s'"
      by (auto simp add: for_each_gene_Cons ebind_eq_Inr getitem_eq_Inr)
    have est': "Q t'" if "f' \<in> set fl" "map_of gl (take 8 f') = Some genes'" "G \<in> set genes'"
      "body (take 8 f') G t = Inr t'" for f' genes' t t'
      using Cons.prems(2) [of f' genes' t t'] that by simp
    have "G \<in> set (genes_of fl gl) \<or> Q s1"
    proof (cases "G \<in> set genes")
      case True
      have "Q s1"
      proof (rule for_each_establish [where Q = Q and G = G, OF l])
        show "G \<in> set genes \<or> Q s" using True by simp
        show "\<And>t t'. body (take 8 f) G t = Inr t' \<Longrightarrow> Q t'"
          using Cons.prems(2) [of f genes] g True by simp
        show "\<And>g t t'. g \<noteq> G \<Longrightarrow> body (take 8 f) g t = Inr t' \<Longrightarrow> Q t \<Longrightarrow> Q t'"
          using pres by blast
      qed
      then show ?thesis by simp
    next
      case False
      show ?thesis
      proof (cases "Q s")
        case True
        have "Q s1"
        proof (rule for_each_inv [where I = Q, OF l True])
          fix x t t' assume "x \<in> set genes" "Q t" "body (take 8 f) x t = Inr t'"
          then show "Q t'" using pres [of x "take 8 f" t t'] False by auto
        qed
        then show ?thesis by simp
      next
        case nq: False
        then show ?thesis using Cons.prems(3) False g by (simp add: genes_of_Cons)
      qed
    qed
    from Cons.IH [OF r est' this] show ?case .
  qed
qed

lemma for_each_gene_Inl:
  assumes "for_each_gene fl gl body s = Inl e"
  shows "e = KeyError \<or> (\<exists>f genes g t. f \<in> set fl \<and> map_of gl (take 8 f) = Some genes \<and>
            g \<in> set genes \<and> body (take 8 f) g t = Inl e)"
  using assms
proof (induction fl arbitrary: s)
  case Nil
  then show ?case by (simp add: for_each_gene_Nil)
next
  case (Cons f fl)
  show ?case
  proof (cases "ebind (getitem gl (take 8 f)) (\<lambda>genes. for_each genes (body (take 8 f)) s)")
    case (Inl e')
    then have e': "e' = e" using Cons.prems by (simp add: for_each_gene_Cons)
    show ?thesis
    proof (cases "map_of gl (take 8 f)")
      case None
      then show ?thesis using Inl e' by (simp add: getitem_def)
    next
      case (Some genes)
      then have "for_each genes (body (take 8 f)) s = Inl e" using Inl e' by (simp add: getitem_def)
      from for_each_Inl [OF this] Some show ?thesis by auto
    qed
  next
    case (Inr s1)
    then have "for_each_gene fl gl body s1 = Inl e" using Cons.prems by (simp add: for_each_gene_Cons)
    from Cons.IH [OF this] show ?thesis by auto
  qed
qed

lemma cell_loop:
  assumes "for_each gs body st = Inr st'"
    and step: "\<And>b t t'. b \<in> set gs \<Longrightarrow> body b t = Inr t' \<Longrightarrow>
           \<exists>v w. V b = Some v \<and> W b = Some w \<and>
                 setitem2 (fst t) gene b v = Inr (fst t') \<and>
                 setitem2 (snd t) gene b w = Inr (snd t')"
  shows "(\<forall>a b. lookup2 (fst st') a b = (if a = gene \<and> b \<in> set gs then V b else lookup2 (fst st) a b)) \<and>
         (\<forall>a b. lookup2 (snd st') a b = (if a = gene \<and> b \<in> set gs then W b else lookup2 (snd st) a b)) \<and>
         dom (map_of (fst st')) = dom (map_of (fst st)) \<and>
         dom (map_of (snd st')) = dom (map_of (snd st)) \<and>
         (\<forall>b\<in>set gs. V b \<noteq> None \<and> W b \<noteq> None)"
  using assms(1) step
proof (induction gs arbitrary: st)
  case Nil
  then show ?case by simp
next
  case (Cons g gs)
  from Cons.prems(1) obtain s1 where b: "body g st = Inr s1" and r: "for_each gs body s1 = Inr st'"
    by (auto split: sum.splits)
  from Cons.prems(2) [of g st s1] b obtain v w where
    vw: "V g = Some v" "W g = Some w" and
    m: "setitem2 (fst st) gene g v = Inr (fst s1)" and
    s: "setitem2 (snd st) gene g w = Inr (snd s1)"
    by auto
  have step': "\<exists>v w. V b = Some v \<and> W b = Some w \<and>
                 setitem2 (fst t) gene b v = Inr (fst t') \<and>
                 setitem2 (snd t) gene b w = Inr (snd t')"
    if "b \<in> set gs" "body b t = Inr t'" for b t t'
    using Cons.prems(2) [of b t t'] that by simp
  note ih = Cons.IH [OF r step']
  have l1: "lookup2 (fst s1) a b = (if a = gene \<and> b = g then Some v else lookup2 (fst st) a b)" for a b
    by (rule lookup2_setitem2 [OF m])
  have l2: "lookup2 (snd s1) a b = (if a = gene \<and> b = g then Some w else lookup2 (snd st) a b)" for a b
    by (rule lookup2_setitem2 [OF s])
  have d1: "dom (map_of (fst s1)) = dom (map_of (fst st))" by (rule dom_setitem2 [OF m])
  have d2: "dom (map_of (snd s1)) = dom (map_of (snd st))" by (rule dom_setitem2 [OF s])
  show ?case
    using ih vw by (auto simp add: l1 l2 d1 d2)
qed

subsection \<open>Floats\<close>

lemma overflow_at_pos: "0 < overflow_at"
  by (simp add: overflow_at_def)

lemma overflow_at_gt: "2 ^ 1023 < overflow_at"
  by (simp add: overflow_at_def)

lemma rnd_Fin: "- overflow_at < r \<Longrightarrow> r < overflow_at \<Longrightarrow> rnd r = Fin r"
  by (simp add: rnd_def)

lemma rnd_eq_Fin: "rnd r = Fin s \<longleftrightarrow> s = r \<and> - overflow_at < r \<and> r < overflow_at"
  using overflow_at_pos by (auto simp add: rnd_def)

lemma rnd_0 [simp]: "rnd 0 = Fin 0"
  using overflow_at_pos by (simp add: rnd_def)

text \<open>Cycle numbers are far from the overflow.\<close>

lemma rnd_small: "\<bar>r\<bar> \<le> 1000000 \<Longrightarrow> rnd r = Fin r"
  by (rule rnd_Fin) (simp_all add: overflow_at_def)

lemma overflow_at_small: "r \<le> 1000000 \<Longrightarrow> (overflow_at \<le> r) = False"
  by (simp add: overflow_at_def)

lemma rnd_nonneg: "0 \<le> r \<Longrightarrow> rnd r = PInf \<or> rnd r = Fin r \<and> r < overflow_at"
  using overflow_at_pos by (auto simp add: rnd_def)

lemma nonneg_square: "nonneg (fmul a a)"
proof (cases a)
  case (Fin r)
  from rnd_nonneg [of "r * r"] show ?thesis by (auto simp add: Fin nonneg_def)
qed (simp_all add: nonneg_def)

lemma nonneg_add: "nonneg x \<Longrightarrow> nonneg y \<Longrightarrow> nonneg (fadd x y)"
proof -
  assume x: "nonneg x" and y: "nonneg y"
  have r: "nonneg (rnd (r + s))" if "0 \<le> r" "0 \<le> s" for r s
    using rnd_nonneg [of "r + s"] that by (auto simp add: nonneg_def)
  from x y show ?thesis
    unfolding nonneg_def [of x] nonneg_def [of y]
    by (elim disjE exE conjE) (simp_all add: r, simp_all add: nonneg_def)
qed

lemma math_sqrt_nonneg: "nonneg x \<Longrightarrow> math_sqrt x = Inr (np_sqrt x)"
  by (auto simp add: nonneg_def)

lemma math_sqrt_sum_squares:
  "math_sqrt (fadd (np_square a) (np_square b)) = Inr (root_sum_squares a b)"
  unfolding np_square_def root_sum_squares_def
  by (intro math_sqrt_nonneg nonneg_add nonneg_square)

lemma float_square_Inr: "float_square x = Inr v \<Longrightarrow> v = fmul x x"
proof (cases x)
  case (Fin a)
  assume "float_square x = Inr v"
  then have v: "v = Fin (a * a)" and lt: "a * a < overflow_at"
    by (auto simp add: Fin split: if_splits)
  have "0 \<le> a * a" by simp
  with lt overflow_at_pos have "rnd (a * a) = Fin (a * a)" by (intro rnd_Fin) linarith+
  with v show ?thesis by (simp add: Fin)
qed auto

lemma float_square_Inl: "float_square x = Inl e \<Longrightarrow> e = OverflowError"
  by (cases x) (auto split: if_splits)

text \<open>
  The square of a root of a sum of squares does not overflow, the sum being in the range of
  the doubles where the root is finite.
\<close>

lemma float_square_root_sum_squares: "\<exists>v. float_square (root_sum_squares a b) = Inr v"
proof -
  have "nonneg (fadd (fmul a a) (fmul b b))"
    by (intro nonneg_add nonneg_square)
  then show ?thesis
    unfolding root_sum_squares_def by (auto simp add: nonneg_def)
qed

lemma math_sqrt_squares:
  assumes "float_square a = Inr a2" and "float_square b = Inr b2"
  shows "math_sqrt (fadd a2 b2) = Inr (root_sum_squares a b)"
  using math_sqrt_sum_squares [of a b] float_square_Inr [OF assms(1)] float_square_Inr [OF assms(2)]
  by (simp add: np_square_def)

lemma math_pow2_Inl: "math_pow2 x = Inl e \<Longrightarrow> e = OverflowError"
  by (cases x) (auto split: if_splits)


lemma fsub_Fin: "\<bar>a - b\<bar> \<le> 2 ^ 1000 \<Longrightarrow> fsub (Fin a) (Fin b) = Fin (a - b)"
  using overflow_at_gt by (simp add: fsub_def rnd_Fin)

subsection \<open>Find mean and sem of replicate values\<close>

lemma aggregate_guide_Inr:
  assumes "aggregate_guide cq gene guide t = Inr t'"
  shows "\<exists>v w. map_option np_mean (lookup2 cq gene guide) = Some v \<and>
               map_option stats_sem (lookup2 cq gene guide) = Some w \<and>
               setitem2 (fst t) gene guide v = Inr (fst t') \<and>
               setitem2 (snd t) gene guide w = Inr (snd t')"
  using assms
  by (cases t) (auto simp add: aggregate_guide_def ebind_eq_Inr getitem2_eq_Inr)

lemma aggregate_gene_Inr:
  assumes "aggregate_gene cq d g t = Inr t'"
  shows "(\<forall>a b. lookup2 (fst t') a b =
            (if a = g then map_option np_mean (lookup2 cq g b) else lookup2 (fst t) a b)) \<and>
         (\<forall>a b. lookup2 (snd t') a b =
            (if a = g then map_option stats_sem (lookup2 cq g b) else lookup2 (snd t) a b))"
proof -
  obtain m s where t: "t = (m, s)" by (cases t)
  from assms obtain tbl where
    tbl: "map_of cq g = Some tbl" and
    l: "for_each (dict_keys tbl) (aggregate_guide cq g) (setitem m g [], setitem s g []) = Inr t'"
    by (auto simp add: t aggregate_gene_def Let_def ebind_eq_Inr getitem_eq_Inr)
  have none: "lookup2 cq g b = None" if "b \<notin> set (dict_keys tbl)" for b
    using that tbl by (auto simp add: lookup2_def set_dict_keys)
  from cell_loop [OF l, where gene = g and V = "\<lambda>b. map_option np_mean (lookup2 cq g b)"
      and W = "\<lambda>b. map_option stats_sem (lookup2 cq g b)"] aggregate_guide_Inr
  show ?thesis
    by (auto simp add: t lookup2_setitem none)
qed

lemma opt2_simps [simp]:
  "opt2 f None y = None" "opt2 f x None = None" "opt2 f (Some a) (Some b) = Some (f a b)"
  by (simp_all add: opt2_def split: option.splits)

lemma opt2_eq_Some: "opt2 f x y = Some c \<longleftrightarrow> (\<exists>a b. x = Some a \<and> y = Some b \<and> c = f a b)"
  by (cases x; cases y) auto

lemma keys_lookup2:
  "map_of d g = Some tbl \<Longrightarrow> b \<in> set (dict_keys tbl) \<longleftrightarrow> lookup2 d g b \<noteq> None"
  by (auto simp add: lookup2_def set_dict_keys)

subsection \<open>Normalize by hcaT abundance\<close>

lemma normalize_guide_Inr:
  assumes "normalize_guide cm cs gene guide t = Inr t'"
  shows "\<exists>v w. opt2 fsub (lookup2 cm ''hcaT'' guide) (lookup2 cm gene guide) = Some v \<and>
               opt2 root_sum_squares (lookup2 cs ''hcaT'' guide) (lookup2 cs gene guide) = Some w \<and>
               setitem2 (fst t) gene guide v = Inr (fst t') \<and>
               setitem2 (snd t) gene guide w = Inr (snd t')"
  using assms
  by (cases t)
    (auto simp add: normalize_guide_def ebind_eq_Inr getitem2_eq_Inr math_sqrt_sum_squares)

lemma normalize_gene_Inr:
  assumes "normalize_gene cm cs d g t = Inr t'" and "g \<noteq> ''hcaT''"
  shows "(\<forall>a b. lookup2 (fst t') a b =
            (if a = g then opt2 fsub (lookup2 cm ''hcaT'' b) (lookup2 cm g b)
             else lookup2 (fst t) a b)) \<and>
         (\<forall>a b. lookup2 (snd t') a b =
            (if a = g then (if lookup2 cm g b = None then None
                            else opt2 root_sum_squares (lookup2 cs ''hcaT'' b) (lookup2 cs g b))
             else lookup2 (snd t) a b)) \<and>
         (\<forall>b. lookup2 cm g b \<noteq> None \<longrightarrow>
            opt2 fsub (lookup2 cm ''hcaT'' b) (lookup2 cm g b) \<noteq> None \<and>
            opt2 root_sum_squares (lookup2 cs ''hcaT'' b) (lookup2 cs g b) \<noteq> None)"
proof -
  obtain m s where t: "t = (m, s)" by (cases t)
  from assms obtain tbl where
    tbl: "map_of cm g = Some tbl" and
    l: "for_each (dict_keys tbl) (normalize_guide cm cs g) (setitem m g [], setitem s g []) = Inr t'"
    by (auto simp add: t normalize_gene_def Let_def ebind_eq_Inr getitem_eq_Inr)
  note k = keys_lookup2 [OF tbl]
  from cell_loop [OF l, where gene = g
      and V = "\<lambda>b. opt2 fsub (lookup2 cm ''hcaT'' b) (lookup2 cm g b)"
      and W = "\<lambda>b. opt2 root_sum_squares (lookup2 cs ''hcaT'' b) (lookup2 cs g b)"]
    normalize_guide_Inr
  show ?thesis
    by (auto simp add: t lookup2_setitem k)
qed

lemma normalize_gene_hcaT: "normalize_gene cm cs d ''hcaT'' t = Inr t"
  by (simp add: normalize_gene_def)

subsection \<open>Normalize by the abundance without CRISPRi\<close>

lemma baseline_guide_Inr:
  assumes "baseline_guide dm ds d gene guide t = Inr t'"
  shows "\<exists>v w. opt2 fsub (lookup2 dm gene guide) (lookup2 dm gene (''Rand42_'' @ d)) = Some v \<and>
               opt2 root_sum_squares (lookup2 ds gene guide) (lookup2 ds gene (''Rand42_'' @ d)) = Some w \<and>
               setitem2 (fst t) gene guide v = Inr (fst t') \<and>
               setitem2 (snd t) gene guide w = Inr (snd t')"
proof -
  obtain m s where t: "t = (m, s)" by (cases t)
  from assms obtain a b m' sa sa2 sb sb2 r s' where
    a: "lookup2 dm gene guide = Some a" and
    b: "lookup2 dm gene (''Rand42_'' @ d) = Some b" and
    m': "setitem2 m gene guide (fsub a b) = Inr m'" and
    sa: "lookup2 ds gene guide = Some sa" "float_square sa = Inr sa2" and
    sb: "lookup2 ds gene (''Rand42_'' @ d) = Some sb" "float_square sb = Inr sb2" and
    r: "math_sqrt (fadd sa2 sb2) = Inr r" and
    s': "setitem2 s gene guide r = Inr s'" and
    t': "t' = (m', s')"
    unfolding t baseline_guide_def prod.case ebind_eq_Inr getitem2_eq_Inr by blast
  from r have "r = root_sum_squares sa sb" by (simp add: math_sqrt_squares [OF sa(2) sb(2)])
  then show ?thesis using a b m' sa(1) sb(1) s' t t' by simp
qed

lemma baseline_gene_Inr:
  assumes "baseline_gene dm ds d g t = Inr t'" and "g \<noteq> ''hcaT''"
  shows "(\<forall>a b. lookup2 (fst t') a b =
            (if a = g then (if lookup2 dm g b = None then None
                            else opt2 fsub (lookup2 dm g b) (lookup2 dm g (''Rand42_'' @ d)))
             else lookup2 (fst t) a b)) \<and>
         (\<forall>a b. lookup2 (snd t') a b =
            (if a = g then (if lookup2 dm g b = None then None
                            else opt2 root_sum_squares (lookup2 ds g b) (lookup2 ds g (''Rand42_'' @ d)))
             else lookup2 (snd t) a b)) \<and>
         (\<forall>b. lookup2 dm g b \<noteq> None \<longrightarrow>
            opt2 fsub (lookup2 dm g b) (lookup2 dm g (''Rand42_'' @ d)) \<noteq> None \<and>
            opt2 root_sum_squares (lookup2 ds g b) (lookup2 ds g (''Rand42_'' @ d)) \<noteq> None)"
proof -
  obtain m s where t: "t = (m, s)" by (cases t)
  from assms obtain tbl where
    tbl: "map_of dm g = Some tbl" and
    l: "for_each (dict_keys tbl) (baseline_guide dm ds d g) (setitem m g [], setitem s g []) = Inr t'"
    by (auto simp add: t baseline_gene_def Let_def ebind_eq_Inr getitem_eq_Inr)
  note k = keys_lookup2 [OF tbl]
  from cell_loop [OF l, where gene = g
      and V = "\<lambda>b. opt2 fsub (lookup2 dm g b) (lookup2 dm g (''Rand42_'' @ d))"
      and W = "\<lambda>b. opt2 root_sum_squares (lookup2 ds g b) (lookup2 ds g (''Rand42_'' @ d))"]
    baseline_guide_Inr
  show ?thesis
    by (auto simp add: t lookup2_setitem k)
qed

lemma baseline_gene_hcaT: "baseline_gene dm ds d ''hcaT'' t = Inr t"
  by (simp add: baseline_gene_def)

subsection \<open>Transform to a linear scale\<close>

lemma pow2_of_simps [simp]: "pow2_of None = None" "pow2_of (Some a) = returned (math_pow2 a)"
  by (simp_all add: pow2_of_def)

lemma returned_eq_Some: "returned m = Some v \<longleftrightarrow> m = Inr v"
  by (cases m) (simp_all add: returned_def)

lemma pow2_of_eq_Some: "pow2_of x = Some v \<longleftrightarrow> (\<exists>a. x = Some a \<and> math_pow2 a = Inr v)"
  by (cases x) (simp_all add: returned_eq_Some)

lemma linearize_guide_Inr:
  assumes "linearize_guide ddm dds gene guide t = Inr t'"
  shows "\<exists>v w. pow2_of (lookup2 ddm gene guide) = Some v \<and>
               opt2 lin_sem (lookup2 dds gene guide) (pow2_of (lookup2 ddm gene guide)) = Some w \<and>
               setitem2 (fst t) gene guide v = Inr (fst t') \<and>
               setitem2 (snd t) gene guide w = Inr (snd t')"
proof -
  obtain m s where t: "t = (m, s)" by (cases t)
  from assms obtain a p m' sv l s' where
    a: "lookup2 ddm gene guide = Some a" and
    p: "math_pow2 a = Inr p" and
    m': "setitem2 m gene guide p = Inr m'" and
    sv: "lookup2 dds gene guide = Some sv" and
    l: "lookup2 m' gene guide = Some l" and
    s': "setitem2 s gene guide (fmul (fmul np_log2 sv) l) = Inr s'" and
    t': "t' = (m', s')"
    unfolding t linearize_guide_def prod.case ebind_eq_Inr getitem2_eq_Inr by blast
  have "l = p" using l lookup2_setitem2 [OF m', of gene guide] by simp
  then show ?thesis using a p m' sv s' t t' by (simp add: lin_sem_def returned_def)
qed

lemma linearize_gene_Inr:
  assumes "linearize_gene ddm dds d g t = Inr t'" and "g \<noteq> ''hcaT''"
  shows "(\<forall>a b. lookup2 (fst t') a b =
            (if a = g then pow2_of (lookup2 ddm g b) else lookup2 (fst t) a b)) \<and>
         (\<forall>a b. lookup2 (snd t') a b =
            (if a = g then opt2 lin_sem (lookup2 dds g b) (pow2_of (lookup2 ddm g b))
             else lookup2 (snd t) a b)) \<and>
         (\<forall>b. lookup2 ddm g b \<noteq> None \<longrightarrow>
            lookup2 dds g b \<noteq> None \<and> pow2_of (lookup2 ddm g b) \<noteq> None)"
proof -
  obtain m s where t: "t = (m, s)" by (cases t)
  from assms obtain tbl where
    tbl: "map_of ddm g = Some tbl" and
    l: "for_each (dict_keys tbl) (linearize_guide ddm dds g) (setitem m g [], setitem s g []) = Inr t'"
    by (auto simp add: t linearize_gene_def Let_def ebind_eq_Inr getitem_eq_Inr)
  note k = keys_lookup2 [OF tbl]
  from cell_loop [OF l, where gene = g
      and V = "\<lambda>b. pow2_of (lookup2 ddm g b)"
      and W = "\<lambda>b. opt2 lin_sem (lookup2 dds g b) (pow2_of (lookup2 ddm g b))"]
    linearize_guide_Inr
  show ?thesis
    by (auto simp add: t lookup2_setitem k opt2_eq_Some)
qed

lemma linearize_gene_hcaT: "linearize_gene ddm dds d ''hcaT'' t = Inr t"
  by (simp add: linearize_gene_def)

lemma lookup2_Nil [simp]: "lookup2 [] a b = None"
  by (simp add: lookup2_def)

lemma aggregate_all:
  assumes "for_each_gene fl gl (aggregate_gene cq) ([], []) = Inr (cm, cs)"
  shows "lookup2 cm a b = (if a \<in> set (genes_of fl gl) then map_option np_mean (lookup2 cq a b) else None)"
    and "lookup2 cs a b = (if a \<in> set (genes_of fl gl) then map_option stats_sem (lookup2 cq a b) else None)"
proof -
  have "lookup2 cm a b = (if a \<in> set (genes_of fl gl) then map_option np_mean (lookup2 cq a b) else None) \<and>
        lookup2 cs a b = (if a \<in> set (genes_of fl gl) then map_option stats_sem (lookup2 cq a b) else None)"
  proof (cases "a \<in> set (genes_of fl gl)")
    case True
    have "(\<forall>b. lookup2 (fst (cm, cs)) a b = map_option np_mean (lookup2 cq a b)) \<and>
          (\<forall>b. lookup2 (snd (cm, cs)) a b = map_option stats_sem (lookup2 cq a b))"
    proof (rule for_each_gene_establish [where G = a, OF assms True])
      fix f genes t t'
      assume "aggregate_gene cq (take 8 f) a t = Inr t'"
      from aggregate_gene_Inr [OF this]
      show "(\<forall>b. lookup2 (fst t') a b = map_option np_mean (lookup2 cq a b)) \<and>
            (\<forall>b. lookup2 (snd t') a b = map_option stats_sem (lookup2 cq a b))"
        by simp
    next
      fix d g t t'
      assume "g \<noteq> a" and "aggregate_gene cq d g t = Inr t'"
        and "(\<forall>b. lookup2 (fst t) a b = map_option np_mean (lookup2 cq a b)) \<and>
             (\<forall>b. lookup2 (snd t) a b = map_option stats_sem (lookup2 cq a b))"
      with aggregate_gene_Inr [of cq d g t t']
      show "(\<forall>b. lookup2 (fst t') a b = map_option np_mean (lookup2 cq a b)) \<and>
            (\<forall>b. lookup2 (snd t') a b = map_option stats_sem (lookup2 cq a b))"
        by simp
    qed
    then show ?thesis using True by simp
  next
    case False
    have "(\<forall>b. lookup2 (fst (cm, cs)) a b = None) \<and> (\<forall>b. lookup2 (snd (cm, cs)) a b = None)"
    proof (rule for_each_gene_inv [OF assms])
      show "(\<forall>b. lookup2 (fst ([], [])) a b = None) \<and> (\<forall>b. lookup2 (snd ([], [])) a b = None)"
        by simp
    next
      fix f genes g t t'
      assume f: "f \<in> set fl" "map_of gl (take 8 f) = Some genes" "g \<in> set genes"
        and i: "(\<forall>b. lookup2 (fst t) a b = None) \<and> (\<forall>b. lookup2 (snd t) a b = None)"
        and r: "aggregate_gene cq (take 8 f) g t = Inr t'"
      from f have "g \<in> set (genes_of fl gl)" by (auto simp add: in_genes_of)
      with False have "g \<noteq> a" by auto
      with aggregate_gene_Inr [OF r] i
      show "(\<forall>b. lookup2 (fst t') a b = None) \<and> (\<forall>b. lookup2 (snd t') a b = None)"
        by simp
    qed
    then show ?thesis using False by simp
  qed
  then show "lookup2 cm a b = (if a \<in> set (genes_of fl gl) then map_option np_mean (lookup2 cq a b) else None)"
    and "lookup2 cs a b = (if a \<in> set (genes_of fl gl) then map_option stats_sem (lookup2 cq a b) else None)"
    by simp_all
qed

lemma normalize_all:
  assumes "for_each_gene fl gl (normalize_gene cm cs) s = Inr (dm, ds)"
    and "G \<in> set (genes_of fl gl)" and "G \<noteq> ''hcaT''"
  shows "(\<forall>b. lookup2 dm G b = opt2 fsub (lookup2 cm ''hcaT'' b) (lookup2 cm G b)) \<and>
         (\<forall>b. lookup2 ds G b =
            (if lookup2 cm G b = None then None
             else opt2 root_sum_squares (lookup2 cs ''hcaT'' b) (lookup2 cs G b))) \<and>
         (\<forall>b. lookup2 cm G b \<noteq> None \<longrightarrow>
            opt2 fsub (lookup2 cm ''hcaT'' b) (lookup2 cm G b) \<noteq> None \<and>
            opt2 root_sum_squares (lookup2 cs ''hcaT'' b) (lookup2 cs G b) \<noteq> None)"
proof -
  let ?Q = "\<lambda>t. (\<forall>b. lookup2 (fst t) G b = opt2 fsub (lookup2 cm ''hcaT'' b) (lookup2 cm G b)) \<and>
         (\<forall>b. lookup2 (snd t) G b =
            (if lookup2 cm G b = None then None
             else opt2 root_sum_squares (lookup2 cs ''hcaT'' b) (lookup2 cs G b))) \<and>
         (\<forall>b. lookup2 cm G b \<noteq> None \<longrightarrow>
            opt2 fsub (lookup2 cm ''hcaT'' b) (lookup2 cm G b) \<noteq> None \<and>
            opt2 root_sum_squares (lookup2 cs ''hcaT'' b) (lookup2 cs G b) \<noteq> None)"
  have "?Q (dm, ds)"
  proof (rule for_each_gene_establish [where G = G and Q = ?Q, OF assms(1,2)])
    fix f genes t t'
    assume "normalize_gene cm cs (take 8 f) G t = Inr t'"
    from normalize_gene_Inr [OF this assms(3)] show "?Q t'" by simp
  next
    fix d g t t'
    assume g: "g \<noteq> G" and r: "normalize_gene cm cs d g t = Inr t'" and q: "?Q t"
    show "?Q t'"
    proof (cases "g = ''hcaT''")
      case True
      then have "t' = t" using r by (simp add: normalize_gene_hcaT)
      then show ?thesis using q by simp
    next
      case False
      from normalize_gene_Inr [OF r False] g q show ?thesis by simp
    qed
  qed
  then show ?thesis by simp
qed

lemma baseline_all:
  assumes "for_each_gene fl gl (baseline_gene dm ds) s = Inr (ddm, dds)"
    and "G \<in> set (genes_of fl gl)" and "G \<noteq> ''hcaT''"
    and date: "\<And>f genes. f \<in> set fl \<Longrightarrow> map_of gl (take 8 f) = Some genes \<Longrightarrow> G \<in> set genes \<Longrightarrow>
           take 8 f = date"
  shows "(\<forall>b. lookup2 ddm G b =
            (if lookup2 dm G b = None then None
             else opt2 fsub (lookup2 dm G b) (lookup2 dm G (''Rand42_'' @ date)))) \<and>
         (\<forall>b. lookup2 dds G b =
            (if lookup2 dm G b = None then None
             else opt2 root_sum_squares (lookup2 ds G b) (lookup2 ds G (''Rand42_'' @ date)))) \<and>
         (\<forall>b. lookup2 dm G b \<noteq> None \<longrightarrow>
            opt2 fsub (lookup2 dm G b) (lookup2 dm G (''Rand42_'' @ date)) \<noteq> None \<and>
            opt2 root_sum_squares (lookup2 ds G b) (lookup2 ds G (''Rand42_'' @ date)) \<noteq> None)"
proof -
  let ?Q = "\<lambda>t. (\<forall>b. lookup2 (fst t) G b =
            (if lookup2 dm G b = None then None
             else opt2 fsub (lookup2 dm G b) (lookup2 dm G (''Rand42_'' @ date)))) \<and>
         (\<forall>b. lookup2 (snd t) G b =
            (if lookup2 dm G b = None then None
             else opt2 root_sum_squares (lookup2 ds G b) (lookup2 ds G (''Rand42_'' @ date)))) \<and>
         (\<forall>b. lookup2 dm G b \<noteq> None \<longrightarrow>
            opt2 fsub (lookup2 dm G b) (lookup2 dm G (''Rand42_'' @ date)) \<noteq> None \<and>
            opt2 root_sum_squares (lookup2 ds G b) (lookup2 ds G (''Rand42_'' @ date)) \<noteq> None)"
  have "?Q (ddm, dds)"
  proof (rule for_each_gene_establish [where G = G and Q = ?Q, OF assms(1,2)])
    fix f genes t t'
    assume f: "f \<in> set fl" "map_of gl (take 8 f) = Some genes" "G \<in> set genes"
      and r: "baseline_gene dm ds (take 8 f) G t = Inr t'"
    from date [OF f] have d: "take 8 f = date" .
    from baseline_gene_Inr [OF r assms(3)] show "?Q t'" unfolding d by simp
  next
    fix d g t t'
    assume g: "g \<noteq> G" and r: "baseline_gene dm ds d g t = Inr t'" and q: "?Q t"
    show "?Q t'"
    proof (cases "g = ''hcaT''")
      case True
      then have "t' = t" using r by (simp add: baseline_gene_hcaT)
      then show ?thesis using q by simp
    next
      case False
      from baseline_gene_Inr [OF r False] g q show ?thesis by simp
    qed
  qed
  then show ?thesis by simp
qed

lemma linearize_all:
  assumes "for_each_gene fl gl (linearize_gene ddm dds) s = Inr (lm, ls)"
    and "G \<in> set (genes_of fl gl)" and "G \<noteq> ''hcaT''"
  shows "(\<forall>b. lookup2 lm G b = pow2_of (lookup2 ddm G b)) \<and>
         (\<forall>b. lookup2 ls G b = opt2 lin_sem (lookup2 dds G b) (pow2_of (lookup2 ddm G b))) \<and>
         (\<forall>b. lookup2 ddm G b \<noteq> None \<longrightarrow>
            lookup2 dds G b \<noteq> None \<and> pow2_of (lookup2 ddm G b) \<noteq> None)"
proof -
  let ?Q = "\<lambda>t. (\<forall>b. lookup2 (fst t) G b = pow2_of (lookup2 ddm G b)) \<and>
         (\<forall>b. lookup2 (snd t) G b = opt2 lin_sem (lookup2 dds G b) (pow2_of (lookup2 ddm G b))) \<and>
         (\<forall>b. lookup2 ddm G b \<noteq> None \<longrightarrow>
            lookup2 dds G b \<noteq> None \<and> pow2_of (lookup2 ddm G b) \<noteq> None)"
  have "?Q (lm, ls)"
  proof (rule for_each_gene_establish [where G = G and Q = ?Q, OF assms(1,2)])
    fix f genes t t'
    assume "linearize_gene ddm dds (take 8 f) G t = Inr t'"
    from linearize_gene_Inr [OF this assms(3)] show "?Q t'" by simp
  next
    fix d g t t'
    assume g: "g \<noteq> G" and r: "linearize_gene ddm dds d g t = Inr t'" and q: "?Q t"
    show "?Q t'"
    proof (cases "g = ''hcaT''")
      case True
      then have "t' = t" using r by (simp add: linearize_gene_hcaT)
      then show ?thesis using q by simp
    next
      case False
      from linearize_gene_Inr [OF r False] g q show ?thesis by simp
    qed
  qed
  then show ?thesis by simp
qed

lemmas pass_defs = aggregate_pass_def normalize_pass_def baseline_pass_def linearize_pass_def

lemma relative_expression_Inr:
  assumes "relative_expression fl gl cq = Inr res"
  shows "for_each_gene fl gl (aggregate_gene cq) ([], []) = Inr (cq_mean_dict res, cq_sem_dict res)"
    and "for_each_gene fl gl (normalize_gene (cq_mean_dict res) (cq_sem_dict res)) ([], []) =
           Inr (d_cq_mean_dict res, d_cq_sem_dict res)"
    and "for_each_gene fl gl (baseline_gene (d_cq_mean_dict res) (d_cq_sem_dict res)) ([], []) =
           Inr (dd_cq_mean_dict res, dd_cq_sem_dict res)"
    and "for_each_gene fl gl (linearize_gene (dd_cq_mean_dict res) (dd_cq_sem_dict res)) ([], []) =
           Inr (dd_cq_mean_lin_dict res, dd_cq_sem_lin_dict res)"
  using assms
  by (auto simp add: relative_expression_def pass_defs ebind_eq_Inr)

lemma pipeline_formula:
  assumes run: "relative_expression fl gl cq = Inr res"
    and G: "G \<in> set (genes_of fl gl)" "G \<noteq> ''hcaT''"
    and dates: "\<forall>f\<in>set fl. \<forall>genes. map_of gl (take 8 f) = Some genes \<longrightarrow> G \<in> set genes \<longrightarrow>
           take 8 f = date"
    and xs: "lookup2 cq G Gd = Some xs"
    and hs: "lookup2 cq ''hcaT'' Gd = Some hs"
    and xr: "lookup2 cq G (''Rand42_'' @ date) = Some xr"
    and hr: "lookup2 cq ''hcaT'' (''Rand42_'' @ date) = Some hr"
  shows "lookup2 (d_cq_mean_dict res) G Gd = Some (fsub (np_mean hs) (np_mean xs))"
    and "lookup2 (d_cq_sem_dict res) G Gd = Some (root_sum_squares (stats_sem hs) (stats_sem xs))"
    and "lookup2 (d_cq_mean_dict res) G (''Rand42_'' @ date) = Some (fsub (np_mean hr) (np_mean xr))"
    and "lookup2 (d_cq_sem_dict res) G (''Rand42_'' @ date) =
           Some (root_sum_squares (stats_sem hr) (stats_sem xr))"
    and "lookup2 (dd_cq_mean_dict res) G Gd =
           Some (fsub (fsub (np_mean hs) (np_mean xs)) (fsub (np_mean hr) (np_mean xr)))"
    and "lookup2 (dd_cq_sem_dict res) G Gd =
           Some (root_sum_squares (root_sum_squares (stats_sem hs) (stats_sem xs))
                                  (root_sum_squares (stats_sem hr) (stats_sem xr)))"
    and "\<exists>fc. math_pow2 (fsub (fsub (np_mean hs) (np_mean xs)) (fsub (np_mean hr) (np_mean xr))) = Inr fc \<and>
           lookup2 (dd_cq_mean_lin_dict res) G Gd = Some fc \<and>
           lookup2 (dd_cq_sem_lin_dict res) G Gd =
             Some (fmul (fmul np_log2
                     (root_sum_squares (root_sum_squares (stats_sem hs) (stats_sem xs))
                                       (root_sum_squares (stats_sem hr) (stats_sem xr)))) fc)"
proof -
  have date: "take 8 f = date"
    if "f \<in> set fl" "map_of gl (take 8 f) = Some genes" "G \<in> set genes" for f genes
    using dates that by blast
  note st = relative_expression_Inr [OF run]
  note a1 = aggregate_all [OF st(1)]
  note n = normalize_all [OF st(2) G]
  note b = baseline_all [OF st(3) G date]
  note l = linearize_all [OF st(4) G]
  have cmG: "lookup2 (cq_mean_dict res) G Gd = Some (np_mean xs)" using a1(1) G xs by simp
  have "lookup2 (cq_mean_dict res) ''hcaT'' Gd \<noteq> None" using n cmG by (auto simp add: opt2_eq_Some)
  then have H: "''hcaT'' \<in> set (genes_of fl gl)" using a1(1) [of "''hcaT''" Gd] by (auto split: if_splits)
  show d1: "lookup2 (d_cq_mean_dict res) G Gd = Some (fsub (np_mean hs) (np_mean xs))"
    using n a1 G H xs hs by simp
  show d2: "lookup2 (d_cq_sem_dict res) G Gd = Some (root_sum_squares (stats_sem hs) (stats_sem xs))"
    using n a1 G H xs hs by simp
  show d3: "lookup2 (d_cq_mean_dict res) G (''Rand42_'' @ date) = Some (fsub (np_mean hr) (np_mean xr))"
    using n a1 G H xr hr by simp
  show d4: "lookup2 (d_cq_sem_dict res) G (''Rand42_'' @ date) =
           Some (root_sum_squares (stats_sem hr) (stats_sem xr))"
    using n a1 G H xr hr by simp
  show dd1: "lookup2 (dd_cq_mean_dict res) G Gd =
           Some (fsub (fsub (np_mean hs) (np_mean xs)) (fsub (np_mean hr) (np_mean xr)))"
    using b d1 d3 by simp
  show dd2: "lookup2 (dd_cq_sem_dict res) G Gd =
           Some (root_sum_squares (root_sum_squares (stats_sem hs) (stats_sem xs))
                                  (root_sum_squares (stats_sem hr) (stats_sem xr)))"
    using b d1 d2 d4 by simp
  from l dd1 obtain fc where
    fc: "math_pow2 (fsub (fsub (np_mean hs) (np_mean xs)) (fsub (np_mean hr) (np_mean xr))) = Inr fc"
    by (auto simp add: returned_def split: sum.splits)
  have "lookup2 (dd_cq_mean_lin_dict res) G Gd = Some fc"
    using l dd1 fc by (simp add: returned_def)
  moreover have "lookup2 (dd_cq_sem_lin_dict res) G Gd =
             Some (fmul (fmul np_log2
                     (root_sum_squares (root_sum_squares (stats_sem hs) (stats_sem xs))
                                       (root_sum_squares (stats_sem hr) (stats_sem xr)))) fc)"
    using l dd1 dd2 fc by (simp add: lin_sem_def returned_def)
  ultimately show "\<exists>fc. math_pow2 (fsub (fsub (np_mean hs) (np_mean xs)) (fsub (np_mean hr) (np_mean xr))) = Inr fc \<and>
           lookup2 (dd_cq_mean_lin_dict res) G Gd = Some fc \<and>
           lookup2 (dd_cq_sem_lin_dict res) G Gd =
             Some (fmul (fmul np_log2
                     (root_sum_squares (root_sum_squares (stats_sem hs) (stats_sem xs))
                                       (root_sum_squares (stats_sem hr) (stats_sem xr)))) fc)"
    using fc by blast
qed

lemmas float_defs = np_mean_def stats_sem_def np_std1_def asarray_def add_reduce_def np_square_def
  fsub_def np_log2_def rnd_small overflow_at_small

lemmas eval_defs = relative_expression_def pass_defs for_each_gene_def aggregate_gene_def
  aggregate_guide_def normalize_gene_def normalize_guide_def baseline_gene_def baseline_guide_def
  linearize_gene_def linearize_guide_def getitem_def getitem2_def setitem_def setitem2_def
  dict_keys_def float_defs Let_def

lemma example_runs: "\<not> isl (relative_expression example_files example_genes example_cq)"
  by (simp add: example_files_def example_genes_def example_cq_def eval_defs)

subsection \<open>When the calculation returns\<close>

lemma for_each_ran:
  assumes "for_each xs body s = Inr s'" and "x \<in> set xs"
  shows "\<exists>t t'. body x t = Inr t'"
  using assms
proof (induction xs arbitrary: s)
  case Nil
  then show ?case by simp
next
  case (Cons y ys)
  from Cons.prems(1) obtain s1 where b: "body y s = Inr s1" and r: "for_each ys body s1 = Inr s'"
    by (auto split: sum.splits)
  show ?case
  proof (cases "x = y")
    case True
    then show ?thesis using b by auto
  next
    case False
    then have "x \<in> set ys" using Cons.prems(2) by simp
    from Cons.IH [OF r this] show ?thesis .
  qed
qed

lemma for_each_gene_ran:
  assumes "for_each_gene fl gl body s = Inr s'" and "f \<in> set fl"
  shows "\<exists>genes. map_of gl (take 8 f) = Some genes \<and>
           (\<forall>g\<in>set genes. \<exists>t t'. body (take 8 f) g t = Inr t')"
  using assms
proof (induction fl arbitrary: s)
  case Nil
  then show ?case by simp
next
  case (Cons f' fl)
  from Cons.prems(1) obtain genes s1 where
    g: "map_of gl (take 8 f') = Some genes" and
    l: "for_each genes (body (take 8 f')) s = Inr s1" and
    r: "for_each_gene fl gl body s1 = Inr s'"
    by (auto simp add: for_each_gene_Cons ebind_eq_Inr getitem_eq_Inr)
  show ?case
  proof (cases "f = f'")
    case True
    then show ?thesis using g for_each_ran [OF l] by auto
  next
    case False
    then have "f \<in> set fl" using Cons.prems(2) by simp
    from Cons.IH [OF r this] show ?thesis .
  qed
qed

lemma for_each_succeeds:
  assumes "I s"
    and "\<And>x t. x \<in> set xs \<Longrightarrow> I t \<Longrightarrow> \<exists>t'. body x t = Inr t' \<and> I t'"
  shows "\<exists>s'. for_each xs body s = Inr s' \<and> I s'"
  using assms
proof (induction xs arbitrary: s)
  case Nil
  then show ?case by simp
next
  case (Cons x xs)
  from Cons.prems(2) [of x s] Cons.prems(1) obtain s1 where b: "body x s = Inr s1" and i: "I s1"
    by auto
  have step: "\<exists>t'. body y t = Inr t' \<and> I t'" if "y \<in> set xs" "I t" for y t
    using Cons.prems(2) [of y t] that by simp
  from Cons.IH [OF i step] b show ?case by simp
qed

lemma for_each_gene_succeeds:
  assumes "\<And>f. f \<in> set fl \<Longrightarrow> \<exists>genes. map_of gl (take 8 f) = Some genes \<and>
             (\<forall>g\<in>set genes. \<forall>t. \<exists>t'. body (take 8 f) g t = Inr t')"
  shows "\<exists>s'. for_each_gene fl gl body s = Inr s'"
  using assms
proof (induction fl arbitrary: s)
  case Nil
  then show ?case by (simp add: for_each_gene_Nil)
next
  case (Cons f fl)
  from Cons.prems [of f] obtain genes where
    g: "map_of gl (take 8 f) = Some genes" and
    b: "\<forall>g\<in>set genes. \<forall>t. \<exists>t'. body (take 8 f) g t = Inr t'"
    by auto
  from for_each_succeeds [where I = "\<lambda>_. True" and xs = genes and body = "body (take 8 f)" and s = s] b
  obtain s1 where l: "for_each genes (body (take 8 f)) s = Inr s1" by auto
  have "\<exists>s'. for_each_gene fl gl body s1 = Inr s'"
    by (rule Cons.IH) (use Cons.prems in auto)
  then show ?case using g l by (simp add: for_each_gene_Cons getitem_def)
qed

lemma cell_loop_succeeds:
  fixes m :: "'v dict dict" and s :: "'w dict dict"
  assumes "\<And>b m s tm ts. b \<in> set gs \<Longrightarrow> map_of m gene = Some tm \<Longrightarrow> map_of s gene = Some ts \<Longrightarrow>
             \<exists>v w. body b (m, s) = Inr (setitem m gene (setitem tm b v), setitem s gene (setitem ts b w))"
    and "map_of m gene \<noteq> None" and "map_of s gene \<noteq> None"
  shows "\<exists>t'. for_each gs body (m, s) = Inr t'"
proof -
  let ?I = "\<lambda>t. map_of (fst t) gene \<noteq> None \<and> map_of (snd t) gene \<noteq> None"
  have "\<exists>s'. for_each gs body (m, s) = Inr s' \<and> ?I s'"
  proof (rule for_each_succeeds [where I = ?I])
    show "?I (m, s)" using assms(2,3) by simp
  next
    fix x and t :: "'v dict dict \<times> 'w dict dict"
    assume x: "x \<in> set gs" and i: "?I t"
    obtain m' s' where t: "t = (m', s')" by (cases t)
    from i t obtain tm ts where tm: "map_of m' gene = Some tm" and ts: "map_of s' gene = Some ts"
      by auto
    from assms(1) [of x m' tm s' ts] x tm ts show "\<exists>t'. body x t = Inr t' \<and> ?I t'"
      by (auto simp add: t map_of_setitem)
  qed
  then show ?thesis by auto
qed

text \<open>The same for a body that returns or raises one exception \<open>E\<close>.\<close>

lemma for_each_succeeds_or:
  assumes "I s"
    and "\<And>x t. x \<in> set xs \<Longrightarrow> I t \<Longrightarrow> (\<exists>t'. body x t = Inr t' \<and> I t') \<or> body x t = Inl E"
  shows "(\<exists>s'. for_each xs body s = Inr s' \<and> I s') \<or> for_each xs body s = Inl E"
  using assms
proof (induction xs arbitrary: s)
  case Nil
  then show ?case by simp
next
  case (Cons x xs)
  from Cons.prems(2) [of x s] Cons.prems(1)
  consider s1 where "body x s = Inr s1" "I s1" | "body x s = Inl E"
    by auto
  then show ?case
  proof cases
    case 1
    have step: "(\<exists>t'. body y t = Inr t' \<and> I t') \<or> body y t = Inl E" if "y \<in> set xs" "I t" for y t
      using Cons.prems(2) [of y t] that by simp
    from Cons.IH [OF 1(2) step] 1(1) show ?thesis by simp
  next
    case 2
    then show ?thesis by simp
  qed
qed

lemma for_each_gene_succeeds_or:
  assumes "\<And>f. f \<in> set fl \<Longrightarrow> \<exists>genes. map_of gl (take 8 f) = Some genes \<and>
             (\<forall>g\<in>set genes. \<forall>t. (\<exists>t'. body (take 8 f) g t = Inr t') \<or> body (take 8 f) g t = Inl E)"
  shows "(\<exists>s'. for_each_gene fl gl body s = Inr s') \<or> for_each_gene fl gl body s = Inl E"
  using assms
proof (induction fl arbitrary: s)
  case Nil
  then show ?case by (simp add: for_each_gene_Nil)
next
  case (Cons f fl)
  from Cons.prems [of f] obtain genes where
    g: "map_of gl (take 8 f) = Some genes" and
    b: "\<forall>g\<in>set genes. \<forall>t. (\<exists>t'. body (take 8 f) g t = Inr t') \<or> body (take 8 f) g t = Inl E"
    by auto
  from for_each_succeeds_or [where I = "\<lambda>_. True" and xs = genes and body = "body (take 8 f)"
      and s = s and E = E] b
  consider s1 where "for_each genes (body (take 8 f)) s = Inr s1"
    | "for_each genes (body (take 8 f)) s = Inl E"
    by auto
  then show ?case
  proof cases
    case 1
    have "(\<exists>s'. for_each_gene fl gl body s1 = Inr s') \<or> for_each_gene fl gl body s1 = Inl E"
      by (rule Cons.IH) (use Cons.prems in auto)
    then show ?thesis using g 1 by (simp add: for_each_gene_Cons getitem_def)
  next
    case 2
    then show ?thesis using g by (simp add: for_each_gene_Cons getitem_def)
  qed
qed

lemma cell_loop_succeeds_or:
  fixes m :: "'v dict dict" and s :: "'w dict dict"
  assumes "\<And>b m s tm ts. b \<in> set gs \<Longrightarrow> map_of m gene = Some tm \<Longrightarrow> map_of s gene = Some ts \<Longrightarrow>
             (\<exists>v w. body b (m, s) = Inr (setitem m gene (setitem tm b v), setitem s gene (setitem ts b w))) \<or>
             body b (m, s) = Inl E"
    and "map_of m gene \<noteq> None" and "map_of s gene \<noteq> None"
  shows "(\<exists>t'. for_each gs body (m, s) = Inr t') \<or> for_each gs body (m, s) = Inl E"
proof -
  let ?I = "\<lambda>t :: 'v dict dict \<times> 'w dict dict. map_of (fst t) gene \<noteq> None \<and> map_of (snd t) gene \<noteq> None"
  have "(\<exists>s'. for_each gs body (m, s) = Inr s' \<and> ?I s') \<or> for_each gs body (m, s) = Inl E"
  proof (rule for_each_succeeds_or [where I = ?I])
    show "?I (m, s)" using assms(2,3) by simp
  next
    fix x and t :: "'v dict dict \<times> 'w dict dict"
    assume x: "x \<in> set gs" and i: "?I t"
    obtain m' s' where t: "t = (m', s')" by (cases t)
    from i t obtain tm ts where tm: "map_of m' gene = Some tm" and ts: "map_of s' gene = Some ts"
      by auto
    from assms(1) [of x m' tm s' ts] x tm ts show "(\<exists>t'. body x t = Inr t' \<and> ?I t') \<or> body x t = Inl E"
      by (auto simp add: t map_of_setitem)
  qed
  then show ?thesis by auto
qed

lemma getitem_Some: "map_of d k = Some v \<Longrightarrow> getitem d k = Inr v"
  by (simp add: getitem_eq_Inr)

lemma getitem2_Some: "lookup2 d a b = Some v \<Longrightarrow> getitem2 d a b = Inr v"
  by (simp add: getitem2_eq_Inr)

lemma setitem2_Some: "map_of d a = Some t \<Longrightarrow> setitem2 d a b v = Inr (setitem d a (setitem t b v))"
  by (simp add: setitem2_eq_Inr)

lemma aggregate_gene_succeeds:
  assumes "map_of cq g \<noteq> None"
  shows "\<exists>t'. aggregate_gene cq d g t = Inr t'"
proof -
  obtain m s where t: "t = (m, s)" by (cases t)
  from assms obtain tbl where tbl: "map_of cq g = Some tbl" by auto
  have "\<exists>t'. for_each (dict_keys tbl) (aggregate_guide cq g) (setitem m g [], setitem s g []) = Inr t'"
  proof (rule cell_loop_succeeds [where gene = g])
    fix b m s tm ts
    assume b: "b \<in> set (dict_keys tbl)" and tm: "map_of (m :: table) g = Some tm"
      and ts: "map_of (s :: table) g = Some ts"
    from b tbl obtain xs where xs: "lookup2 cq g b = Some xs"
      by (auto simp add: keys_lookup2 [OF tbl])
    show "\<exists>v w. aggregate_guide cq g b (m, s) =
            Inr (setitem m g (setitem tm b v), setitem s g (setitem ts b w))"
      by (auto simp add: aggregate_guide_def getitem2_Some [OF xs] setitem2_Some [OF tm]
          setitem2_Some [OF ts])
  qed (simp_all add: map_of_setitem)
  then show ?thesis
    by (simp add: t aggregate_gene_def Let_def getitem_Some [OF tbl])
qed

lemma aggregate_gene_needs: "aggregate_gene cq d g t = Inr t' \<Longrightarrow> map_of cq g \<noteq> None"
  by (cases t) (auto simp add: aggregate_gene_def Let_def ebind_eq_Inr getitem_eq_Inr)

lemma aggregate_gene_dom:
  assumes "aggregate_gene cq d g t = Inr t'"
  shows "dom (map_of (fst t')) = insert g (dom (map_of (fst t)))"
    and "dom (map_of (snd t')) = insert g (dom (map_of (snd t)))"
proof -
  obtain m s where t: "t = (m, s)" by (cases t)
  from assms obtain tbl where
    tbl: "map_of cq g = Some tbl" and
    l: "for_each (dict_keys tbl) (aggregate_guide cq g) (setitem m g [], setitem s g []) = Inr t'"
    by (auto simp add: t aggregate_gene_def Let_def ebind_eq_Inr getitem_eq_Inr)
  from cell_loop [OF l, where gene = g and V = "\<lambda>b. map_option np_mean (lookup2 cq g b)"
      and W = "\<lambda>b. map_option stats_sem (lookup2 cq g b)"] aggregate_guide_Inr
  show "dom (map_of (fst t')) = insert g (dom (map_of (fst t)))"
    and "dom (map_of (snd t')) = insert g (dom (map_of (snd t)))"
    by (auto simp add: t map_of_setitem)
qed

lemma lookup2_setitem_same: "lookup2 (setitem d a (setitem t b v)) a b = Some v"
  by (simp add: lookup2_setitem map_of_setitem)

lemma normalize_gene_succeeds:
  assumes "g \<noteq> ''hcaT'' \<Longrightarrow> map_of cm g \<noteq> None \<and>
             (\<forall>b. lookup2 cm g b \<noteq> None \<longrightarrow>
                lookup2 cm ''hcaT'' b \<noteq> None \<and> lookup2 cs ''hcaT'' b \<noteq> None \<and> lookup2 cs g b \<noteq> None)"
  shows "\<exists>t'. normalize_gene cm cs d g t = Inr t'"
proof (cases "g = ''hcaT''")
  case True
  then show ?thesis by (simp add: normalize_gene_hcaT)
next
  case False
  obtain m s where t: "t = (m, s)" by (cases t)
  from assms False obtain tbl where tbl: "map_of cm g = Some tbl" by auto
  have "\<exists>t'. for_each (dict_keys tbl) (normalize_guide cm cs g) (setitem m g [], setitem s g []) = Inr t'"
  proof (rule cell_loop_succeeds [where gene = g])
    fix b m s tm ts
    assume b: "b \<in> set (dict_keys tbl)" and tm: "map_of (m :: table) g = Some tm"
      and ts: "map_of (s :: table) g = Some ts"
    from b have "lookup2 cm g b \<noteq> None" by (simp add: keys_lookup2 [OF tbl])
    with assms False obtain x h xs hs where
      l: "lookup2 cm g b = Some x" "lookup2 cm ''hcaT'' b = Some h"
         "lookup2 cs g b = Some xs" "lookup2 cs ''hcaT'' b = Some hs"
      by auto
    show "\<exists>v w. normalize_guide cm cs g b (m, s) =
            Inr (setitem m g (setitem tm b v), setitem s g (setitem ts b w))"
      by (auto simp add: normalize_guide_def l [THEN getitem2_Some] setitem2_Some [OF tm]
          setitem2_Some [OF ts] math_sqrt_sum_squares)
  qed (simp_all add: map_of_setitem)
  then show ?thesis
    using False by (simp add: t normalize_gene_def Let_def getitem_Some [OF tbl])
qed

lemma normalize_gene_dom:
  assumes "normalize_gene cm cs d g t = Inr t'" and "g \<noteq> ''hcaT''"
  shows "dom (map_of (fst t')) = insert g (dom (map_of (fst t)))"
    and "dom (map_of (snd t')) = insert g (dom (map_of (snd t)))"
proof -
  obtain m s where t: "t = (m, s)" by (cases t)
  from assms obtain tbl where
    tbl: "map_of cm g = Some tbl" and
    l: "for_each (dict_keys tbl) (normalize_guide cm cs g) (setitem m g [], setitem s g []) = Inr t'"
    by (auto simp add: t normalize_gene_def Let_def ebind_eq_Inr getitem_eq_Inr)
  from cell_loop [OF l, where gene = g
      and V = "\<lambda>b. opt2 fsub (lookup2 cm ''hcaT'' b) (lookup2 cm g b)"
      and W = "\<lambda>b. opt2 root_sum_squares (lookup2 cs ''hcaT'' b) (lookup2 cs g b)"]
    normalize_guide_Inr
  show "dom (map_of (fst t')) = insert g (dom (map_of (fst t)))"
    and "dom (map_of (snd t')) = insert g (dom (map_of (snd t)))"
    by (auto simp add: t map_of_setitem)
qed

lemma baseline_gene_succeeds:
  assumes "g \<noteq> ''hcaT'' \<Longrightarrow> map_of dm g \<noteq> None \<and>
             (\<forall>b. lookup2 dm g b \<noteq> None \<longrightarrow>
                lookup2 dm g (''Rand42_'' @ d) \<noteq> None \<and> lookup2 ds g b \<noteq> None \<and>
                lookup2 ds g (''Rand42_'' @ d) \<noteq> None)"
    and safe: "\<And>b v. lookup2 ds g b = Some v \<Longrightarrow> \<exists>w. float_square v = Inr w"
  shows "\<exists>t'. baseline_gene dm ds d g t = Inr t'"
proof (cases "g = ''hcaT''")
  case True
  then show ?thesis by (simp add: baseline_gene_hcaT)
next
  case False
  obtain m s where t: "t = (m, s)" by (cases t)
  from assms(1) False obtain tbl where tbl: "map_of dm g = Some tbl" by auto
  have "\<exists>t'. for_each (dict_keys tbl) (baseline_guide dm ds d g) (setitem m g [], setitem s g []) = Inr t'"
  proof (rule cell_loop_succeeds [where gene = g])
    fix b m s tm ts
    assume b: "b \<in> set (dict_keys tbl)" and tm: "map_of (m :: table) g = Some tm"
      and ts: "map_of (s :: table) g = Some ts"
    from b have "lookup2 dm g b \<noteq> None" by (simp add: keys_lookup2 [OF tbl])
    with assms(1) False obtain x h xs hs where
      l: "lookup2 dm g b = Some x" "lookup2 dm g (''Rand42_'' @ d) = Some h"
         "lookup2 ds g b = Some xs" "lookup2 ds g (''Rand42_'' @ d) = Some hs"
      by auto
    from safe [OF l(3)] safe [OF l(4)] obtain xs2 hs2 where
      q: "float_square xs = Inr xs2" "float_square hs = Inr hs2"
      by auto
    show "\<exists>v w. baseline_guide dm ds d g b (m, s) =
            Inr (setitem m g (setitem tm b v), setitem s g (setitem ts b w))"
      using l [THEN getitem2_Some]
      by (auto simp add: baseline_guide_def setitem2_Some [OF tm] setitem2_Some [OF ts] q
          math_sqrt_squares [OF q])
  qed (simp_all add: map_of_setitem)
  then show ?thesis
    using False by (simp add: t baseline_gene_def Let_def getitem_Some [OF tbl])
qed

lemma baseline_gene_dom:
  assumes "baseline_gene dm ds d g t = Inr t'" and "g \<noteq> ''hcaT''"
  shows "dom (map_of (fst t')) = insert g (dom (map_of (fst t)))"
    and "dom (map_of (snd t')) = insert g (dom (map_of (snd t)))"
proof -
  obtain m s where t: "t = (m, s)" by (cases t)
  from assms obtain tbl where
    tbl: "map_of dm g = Some tbl" and
    l: "for_each (dict_keys tbl) (baseline_guide dm ds d g) (setitem m g [], setitem s g []) = Inr t'"
    by (auto simp add: t baseline_gene_def Let_def ebind_eq_Inr getitem_eq_Inr)
  from cell_loop [OF l, where gene = g
      and V = "\<lambda>b. opt2 fsub (lookup2 dm g b) (lookup2 dm g (''Rand42_'' @ d))"
      and W = "\<lambda>b. opt2 root_sum_squares (lookup2 ds g b) (lookup2 ds g (''Rand42_'' @ d))"]
    baseline_guide_Inr
  show "dom (map_of (fst t')) = insert g (dom (map_of (fst t)))"
    and "dom (map_of (snd t')) = insert g (dom (map_of (snd t)))"
    by (auto simp add: t map_of_setitem)
qed

lemma linearize_gene_succeeds_or:
  assumes "g \<noteq> ''hcaT'' \<Longrightarrow> map_of ddm g \<noteq> None \<and>
             (\<forall>b. lookup2 ddm g b \<noteq> None \<longrightarrow> lookup2 dds g b \<noteq> None)"
  shows "(\<exists>t'. linearize_gene ddm dds d g t = Inr t') \<or>
         linearize_gene ddm dds d g t = Inl OverflowError"
proof (cases "g = ''hcaT''")
  case True
  then show ?thesis by (simp add: linearize_gene_hcaT)
next
  case False
  obtain m s where t: "t = (m, s)" by (cases t)
  from assms False obtain tbl where tbl: "map_of ddm g = Some tbl" by auto
  have "(\<exists>t'. for_each (dict_keys tbl) (linearize_guide ddm dds g) (setitem m g [], setitem s g []) = Inr t') \<or>
        for_each (dict_keys tbl) (linearize_guide ddm dds g) (setitem m g [], setitem s g []) =
          Inl OverflowError"
  proof (rule cell_loop_succeeds_or [where gene = g])
    fix b m s tm ts
    assume b: "b \<in> set (dict_keys tbl)" and tm: "map_of (m :: table) g = Some tm"
      and ts: "map_of (s :: table) g = Some ts"
    from b have "lookup2 ddm g b \<noteq> None" by (simp add: keys_lookup2 [OF tbl])
    with assms False obtain x xs where
      l: "lookup2 ddm g b = Some x" "lookup2 dds g b = Some xs"
      by auto
    show "(\<exists>v w. linearize_guide ddm dds g b (m, s) =
            Inr (setitem m g (setitem tm b v), setitem s g (setitem ts b w))) \<or>
          linearize_guide ddm dds g b (m, s) = Inl OverflowError"
    proof (cases "math_pow2 x")
      case (Inl e)
      then have "e = OverflowError" by (rule math_pow2_Inl)
      then show ?thesis
        using Inl by (simp add: linearize_guide_def l [THEN getitem2_Some])
    next
      case (Inr p)
      then show ?thesis
        by (auto simp add: linearize_guide_def l [THEN getitem2_Some] setitem2_Some [OF tm]
            setitem2_Some [OF ts] getitem2_Some [OF lookup2_setitem_same])
    qed
  qed (simp_all add: map_of_setitem)
  then show ?thesis
    using False by (simp add: t linearize_gene_def Let_def getitem_Some [OF tbl])
qed

text \<open>
  The exceptions of the passes: \<^verbatim>\<open>KeyError\<close> in the first two; in the third \<^verbatim>\<open>KeyError\<close>
  as well, the squares of the SEMs of the second pass being in the range of the doubles.
\<close>

lemma aggregate_gene_Inl: "aggregate_gene cq d g t = Inl e \<Longrightarrow> e = KeyError"
proof -
  assume a: "aggregate_gene cq d g t = Inl e"
  obtain m s where t: "t = (m, s)" by (cases t)
  have guide: "e' = KeyError" if "aggregate_guide cq g b u = Inl e'" for b u e'
    using that
    by (cases u) (auto simp add: aggregate_guide_def ebind_eq_Inl getitem2_eq_Inl setitem2_eq_Inl)
  from a show ?thesis
    by (auto simp add: t aggregate_gene_def Let_def ebind_eq_Inl getitem_eq_Inl
        dest!: for_each_Inl guide)
qed

lemma normalize_gene_Inl: "normalize_gene cm cs d g t = Inl e \<Longrightarrow> e = KeyError"
proof -
  assume a: "normalize_gene cm cs d g t = Inl e"
  obtain m s where t: "t = (m, s)" by (cases t)
  have guide: "e' = KeyError" if "normalize_guide cm cs g b u = Inl e'" for b u e'
    using that
    by (cases u) (auto simp add: normalize_guide_def ebind_eq_Inl getitem2_eq_Inl setitem2_eq_Inl
        math_sqrt_sum_squares)
  from a show ?thesis
    by (auto simp add: t normalize_gene_def Let_def ebind_eq_Inl getitem_eq_Inl
        split: if_splits dest!: for_each_Inl guide)
qed

lemma baseline_guide_Inl:
  assumes "baseline_guide dm ds d g b u = Inl e"
    and safe: "\<And>b v. lookup2 ds g b = Some v \<Longrightarrow> \<exists>w. float_square v = Inr w"
  shows "e = KeyError"
proof -
  obtain m s where u: "u = (m, s)" by (cases u)
  have sq: "math_sqrt (fadd sa2 sb2) \<noteq> Inl e'"
    if "float_square sa = Inr sa2" "float_square sb = Inr sb2" for sa sa2 sb sb2 e'
    using math_sqrt_squares [OF that] by simp
  have fs: "float_square v \<noteq> Inl e'" if "lookup2 ds g b' = Some v" for b' v e'
    using safe [OF that] by auto
  from assms(1) show ?thesis
    unfolding u baseline_guide_def prod.case
    by (auto simp add: ebind_eq_Inl getitem2_eq_Inl getitem2_eq_Inr setitem2_eq_Inl sq fs)
qed

lemma baseline_gene_Inl:
  assumes "baseline_gene dm ds d g t = Inl e"
    and safe: "\<And>b v. lookup2 ds g b = Some v \<Longrightarrow> \<exists>w. float_square v = Inr w"
  shows "e = KeyError"
proof -
  obtain m s where t: "t = (m, s)" by (cases t)
  have guide: "e' = KeyError" if "baseline_guide dm ds d g b u = Inl e'" for b u e'
    by (rule baseline_guide_Inl [OF that safe])
  from assms(1) show ?thesis
    by (auto simp add: t baseline_gene_def Let_def ebind_eq_Inl getitem_eq_Inl
        split: if_splits dest!: for_each_Inl guide)
qed

lemma keyed_gene:
  assumes "map_of cq g = Some tbl"
  shows "(g = ''hcaT'' \<or> tbl = [] \<or>
            (H \<and> r \<in> set (dict_keys tbl) \<and>
             (\<forall>b\<in>set (dict_keys tbl). lookup2 cq ''hcaT'' b \<noteq> None))) \<longleftrightarrow>
         (g \<noteq> ''hcaT'' \<longrightarrow>
            (\<forall>b. lookup2 cq g b \<noteq> None \<longrightarrow>
               H \<and> lookup2 cq ''hcaT'' b \<noteq> None \<and> lookup2 cq g r \<noteq> None))"
proof -
  note k = keys_lookup2 [OF assms, symmetric]
  have e: "tbl = [] \<longleftrightarrow> (\<forall>b. b \<notin> set (dict_keys tbl))"
    by (cases tbl) (auto simp add: dict_keys_def)
  show ?thesis
    unfolding k e by blast
qed

lemma keyed_iff:
  "keyed fl gl cq \<longleftrightarrow>
     (\<forall>f\<in>set fl. \<exists>genes. map_of gl (take 8 f) = Some genes \<and>
        (\<forall>g\<in>set genes. map_of cq g \<noteq> None \<and>
           (g \<noteq> ''hcaT'' \<longrightarrow>
              (\<forall>b. lookup2 cq g b \<noteq> None \<longrightarrow>
                 ''hcaT'' \<in> set (genes_of fl gl) \<and> lookup2 cq ''hcaT'' b \<noteq> None \<and>
                 lookup2 cq g (''Rand42_'' @ take 8 f) \<noteq> None))))"
proof -
  let ?P = "\<lambda>f g. map_of cq g \<noteq> None \<and>
           (g \<noteq> ''hcaT'' \<longrightarrow>
              (\<forall>b. lookup2 cq g b \<noteq> None \<longrightarrow>
                 ''hcaT'' \<in> set (genes_of fl gl) \<and> lookup2 cq ''hcaT'' b \<noteq> None \<and>
                 lookup2 cq g (''Rand42_'' @ take 8 f) \<noteq> None))"
  have gene: "(case map_of cq g of None \<Rightarrow> False
             | Some tbl \<Rightarrow>
                 g = ''hcaT'' \<or> tbl = [] \<or>
                 (''hcaT'' \<in> set (genes_of fl gl) \<and>
                  ''Rand42_'' @ take 8 f \<in> set (dict_keys tbl) \<and>
                  (\<forall>b\<in>set (dict_keys tbl). lookup2 cq ''hcaT'' b \<noteq> None))) \<longleftrightarrow> ?P f g" for g f
  proof (cases "map_of cq g")
    case None
    then show ?thesis by simp
  next
    case (Some tbl)
    from keyed_gene [OF Some, of "''hcaT'' \<in> set (genes_of fl gl)" "''Rand42_'' @ take 8 f"]
    show ?thesis by (simp only: Some option.simps) simp
  qed
  have per_file: "(case map_of gl (take 8 f) of None \<Rightarrow> False | Some genes \<Rightarrow> \<forall>g\<in>set genes. ?P f g) \<longleftrightarrow>
      (\<exists>genes. map_of gl (take 8 f) = Some genes \<and> (\<forall>g\<in>set genes. ?P f g))" for f
    by (cases "map_of gl (take 8 f)") simp_all
  show ?thesis
    by (simp only: keyed_def list_all_iff gene per_file)
qed

lemma aggregate_all_dom:
  assumes "for_each_gene fl gl (aggregate_gene cq) s = Inr (cm, cs)"
    and "G \<in> set (genes_of fl gl)"
  shows "map_of cm G \<noteq> None \<and> map_of cs G \<noteq> None"
proof -
  let ?Q = "\<lambda>t :: table \<times> table. G \<in> dom (map_of (fst t)) \<and> G \<in> dom (map_of (snd t))"
  have "?Q (cm, cs)"
  proof (rule for_each_gene_establish [where G = G and Q = ?Q, OF assms])
    fix f genes t t'
    assume "aggregate_gene cq (take 8 f) G t = Inr t'"
    from aggregate_gene_dom [OF this] show "?Q t'" by simp
  next
    fix d g t t'
    assume "aggregate_gene cq d g t = Inr t'" and "?Q t"
    with aggregate_gene_dom [of cq d g t t'] show "?Q t'" by simp
  qed
  then show ?thesis by auto
qed

lemma normalize_all_dom:
  assumes "for_each_gene fl gl (normalize_gene cm cs) s = Inr (dm, ds)"
    and "G \<in> set (genes_of fl gl)" and "G \<noteq> ''hcaT''"
  shows "map_of dm G \<noteq> None \<and> map_of ds G \<noteq> None"
proof -
  let ?Q = "\<lambda>t :: table \<times> table. G \<in> dom (map_of (fst t)) \<and> G \<in> dom (map_of (snd t))"
  have "?Q (dm, ds)"
  proof (rule for_each_gene_establish [where G = G and Q = ?Q, OF assms(1,2)])
    fix f genes t t'
    assume "normalize_gene cm cs (take 8 f) G t = Inr t'"
    from normalize_gene_dom [OF this assms(3)] show "?Q t'" by simp
  next
    fix d g t t'
    assume r: "normalize_gene cm cs d g t = Inr t'" and q: "?Q t"
    show "?Q t'"
    proof (cases "g = ''hcaT''")
      case True
      then have "t' = t" using r by (simp add: normalize_gene_hcaT)
      then show ?thesis using q by simp
    next
      case False
      from normalize_gene_dom [OF r False] q show ?thesis by simp
    qed
  qed
  then show ?thesis by auto
qed

lemma baseline_all_dom:
  assumes "for_each_gene fl gl (baseline_gene dm ds) s = Inr (ddm, dds)"
    and "G \<in> set (genes_of fl gl)" and "G \<noteq> ''hcaT''"
  shows "map_of ddm G \<noteq> None \<and> map_of dds G \<noteq> None"
proof -
  let ?Q = "\<lambda>t :: table \<times> table. G \<in> dom (map_of (fst t)) \<and> G \<in> dom (map_of (snd t))"
  have "?Q (ddm, dds)"
  proof (rule for_each_gene_establish [where G = G and Q = ?Q, OF assms(1,2)])
    fix f genes t t'
    assume "baseline_gene dm ds (take 8 f) G t = Inr t'"
    from baseline_gene_dom [OF this assms(3)] show "?Q t'" by simp
  next
    fix d g t t'
    assume r: "baseline_gene dm ds d g t = Inr t'" and q: "?Q t"
    show "?Q t'"
    proof (cases "g = ''hcaT''")
      case True
      then have "t' = t" using r by (simp add: baseline_gene_hcaT)
      then show ?thesis using q by simp
    next
      case False
      from baseline_gene_dom [OF r False] q show ?thesis by simp
    qed
  qed
  then show ?thesis by auto
qed

lemma baseline_all_sem:
  assumes "for_each_gene fl gl (baseline_gene dm ds) ([], []) = Inr (ddm, dds)"
  shows "lookup2 ddm G b \<noteq> None \<Longrightarrow> lookup2 dds G b \<noteq> None"
proof -
  let ?I = "\<lambda>t :: table \<times> table. \<forall>G b. lookup2 (fst t) G b \<noteq> None \<longrightarrow> lookup2 (snd t) G b \<noteq> None"
  have "?I (ddm, dds)"
  proof (rule for_each_gene_inv [where I = ?I, OF assms])
    show "?I ([], [])" by simp
  next
    fix f genes g t t'
    assume i: "?I t" and r: "baseline_gene dm ds (take 8 f) g t = Inr t'"
    show "?I t'"
    proof (cases "g = ''hcaT''")
      case True
      then have "t' = t" using r by (simp add: baseline_gene_hcaT)
      then show ?thesis using i by simp
    next
      case False
      from baseline_gene_Inr [OF r False] i show ?thesis by auto
    qed
  qed
  then show "lookup2 ddm G b \<noteq> None \<Longrightarrow> lookup2 dds G b \<noteq> None" by simp
qed

lemma normalize_all_safe:
  assumes "for_each_gene fl gl (normalize_gene cm cs) ([], []) = Inr (dm, ds)"
    and "lookup2 ds a b = Some v"
  shows "\<exists>w. float_square v = Inr w"
proof -
  let ?I = "\<lambda>t :: table \<times> table. \<forall>a b v. lookup2 (snd t) a b = Some v \<longrightarrow> (\<exists>w. float_square v = Inr w)"
  have "?I (dm, ds)"
  proof (rule for_each_gene_inv [where I = ?I, OF assms(1)])
    show "?I ([], [])" by simp
  next
    fix f genes g t t'
    assume i: "?I t" and r: "normalize_gene cm cs (take 8 f) g t = Inr t'"
    show "?I t'"
    proof (cases "g = ''hcaT''")
      case True
      then have "t' = t" using r by (simp add: normalize_gene_hcaT)
      then show ?thesis using i by simp
    next
      case False
      note n = normalize_gene_Inr [OF r False, THEN conjunct2, THEN conjunct1, rule_format]
      show ?thesis
      proof (intro allI impI)
        fix a b v assume l: "lookup2 (snd t') a b = Some v"
        show "\<exists>w. float_square v = Inr w"
        proof (cases "a = g")
          case True
          with l n [of a b]
          have "opt2 root_sum_squares (lookup2 cs ''hcaT'' b) (lookup2 cs g b) = Some v"
            by (auto split: if_splits)
          then obtain x y where "v = root_sum_squares x y"
            by (auto simp add: opt2_eq_Some)
          then show ?thesis by (simp add: float_square_root_sum_squares)
        next
          case False
          with l n [of a b] i show ?thesis by simp
        qed
      qed
    qed
  qed
  with assms(2) show ?thesis by auto
qed

text \<open>
  With the keys in place the first three passes return, and the fourth returns or raises
  \<^verbatim>\<open>OverflowError\<close>.
\<close>

lemma keyed_passes:
  assumes "keyed fl gl cq"
  shows "\<exists>cm cs dm ds ddm dds.
           for_each_gene fl gl (aggregate_gene cq) ([], []) = Inr (cm, cs) \<and>
           for_each_gene fl gl (normalize_gene cm cs) ([], []) = Inr (dm, ds) \<and>
           for_each_gene fl gl (baseline_gene dm ds) ([], []) = Inr (ddm, dds) \<and>
           ((\<exists>lm ls. for_each_gene fl gl (linearize_gene ddm dds) ([], []) = Inr (lm, ls)) \<or>
            for_each_gene fl gl (linearize_gene ddm dds) ([], []) = Inl OverflowError)"
proof -
  note K = assms [unfolded keyed_iff, rule_format]
  have genes: "\<exists>genes. map_of gl (take 8 f) = Some genes" if "f \<in> set fl" for f
    using K [OF that] by auto
  have in_genes: "g \<in> set (genes_of fl gl)"
    if "f \<in> set fl" "map_of gl (take 8 f) = Some genes" "g \<in> set genes" for f genes g
    using that by (auto simp add: in_genes_of)
  have Kg: "map_of cq g \<noteq> None"
    if "f \<in> set fl" "map_of gl (take 8 f) = Some genes" "g \<in> set genes" for f genes g
    using K [OF that(1)] that(2,3) by auto
  have Kb: "''hcaT'' \<in> set (genes_of fl gl) \<and> lookup2 cq ''hcaT'' b \<noteq> None \<and>
            lookup2 cq g (''Rand42_'' @ take 8 f) \<noteq> None"
    if "f \<in> set fl" "map_of gl (take 8 f) = Some genes" "g \<in> set genes" "g \<noteq> ''hcaT''"
      "lookup2 cq g b \<noteq> None" for f genes g b
    using K [OF that(1)] that(2,3,4,5) by auto
  \<comment> \<open>first pass\<close>
  have "\<exists>s'. for_each_gene fl gl (aggregate_gene cq) ([], []) = Inr s'"
  proof (rule for_each_gene_succeeds)
    fix f assume f: "f \<in> set fl"
    from genes [OF f] obtain gs where gs: "map_of gl (take 8 f) = Some gs" by auto
    show "\<exists>genes. map_of gl (take 8 f) = Some genes \<and>
            (\<forall>g\<in>set genes. \<forall>t. \<exists>t'. aggregate_gene cq (take 8 f) g t = Inr t')"
      using gs Kg [OF f gs] aggregate_gene_succeeds by auto
  qed
  then obtain cm cs where s1: "for_each_gene fl gl (aggregate_gene cq) ([], []) = Inr (cm, cs)"
    by (cases) auto
  note a = aggregate_all [OF s1]
  note ad = aggregate_all_dom [OF s1]
  \<comment> \<open>second pass\<close>
  have "\<exists>s'. for_each_gene fl gl (normalize_gene cm cs) ([], []) = Inr s'"
  proof (rule for_each_gene_succeeds)
    fix f assume f: "f \<in> set fl"
    from genes [OF f] obtain gs where gs: "map_of gl (take 8 f) = Some gs" by auto
    have "\<exists>t'. normalize_gene cm cs (take 8 f) g t = Inr t'" if g: "g \<in> set gs" for g t
    proof (rule normalize_gene_succeeds)
      assume h: "g \<noteq> ''hcaT''"
      note G = in_genes [OF f gs g]
      have "lookup2 cm ''hcaT'' b \<noteq> None \<and> lookup2 cs ''hcaT'' b \<noteq> None \<and> lookup2 cs g b \<noteq> None"
        if "lookup2 cm g b \<noteq> None" for b
      proof -
        from that have "lookup2 cq g b \<noteq> None" using a(1) [of g b] G by auto
        from Kb [OF f gs g h this] this show ?thesis using a G by auto
      qed
      then show "map_of cm g \<noteq> None \<and>
             (\<forall>b. lookup2 cm g b \<noteq> None \<longrightarrow>
                lookup2 cm ''hcaT'' b \<noteq> None \<and> lookup2 cs ''hcaT'' b \<noteq> None \<and> lookup2 cs g b \<noteq> None)"
        using ad [OF G] by auto
    qed
    then show "\<exists>genes. map_of gl (take 8 f) = Some genes \<and>
            (\<forall>g\<in>set genes. \<forall>t. \<exists>t'. normalize_gene cm cs (take 8 f) g t = Inr t')"
      using gs by auto
  qed
  then obtain dm ds where s2: "for_each_gene fl gl (normalize_gene cm cs) ([], []) = Inr (dm, ds)"
    by (cases) auto
  note nd = normalize_all_dom [OF s2]
  have n1: "lookup2 dm g b \<noteq> None \<longleftrightarrow> lookup2 cq g b \<noteq> None"
    and n2: "lookup2 ds g b \<noteq> None \<longleftrightarrow> lookup2 cq g b \<noteq> None"
    if "f \<in> set fl" "map_of gl (take 8 f) = Some genes" "g \<in> set genes" "g \<noteq> ''hcaT''"
    for f genes g b
  proof -
    note G = in_genes [OF that(1,2,3)]
    note n = normalize_all [OF s2 G that(4)]
    show "lookup2 dm g b \<noteq> None \<longleftrightarrow> lookup2 cq g b \<noteq> None"
      using n a G Kb [OF that, of b] by (cases "lookup2 cq g b") auto
    show "lookup2 ds g b \<noteq> None \<longleftrightarrow> lookup2 cq g b \<noteq> None"
      using n a G Kb [OF that, of b] by (cases "lookup2 cq g b") auto
  qed
  \<comment> \<open>third pass\<close>
  have "\<exists>s'. for_each_gene fl gl (baseline_gene dm ds) ([], []) = Inr s'"
  proof (rule for_each_gene_succeeds)
    fix f assume f: "f \<in> set fl"
    from genes [OF f] obtain gs where gs: "map_of gl (take 8 f) = Some gs" by auto
    have "\<exists>t'. baseline_gene dm ds (take 8 f) g t = Inr t'" if g: "g \<in> set gs" for g t
    proof (rule baseline_gene_succeeds)
      fix b v assume "lookup2 ds g b = Some v"
      then show "\<exists>w. float_square v = Inr w" by (rule normalize_all_safe [OF s2])
    next
      assume h: "g \<noteq> ''hcaT''"
      note G = in_genes [OF f gs g]
      have "lookup2 dm g (''Rand42_'' @ take 8 f) \<noteq> None \<and> lookup2 ds g b \<noteq> None \<and>
            lookup2 ds g (''Rand42_'' @ take 8 f) \<noteq> None"
        if "lookup2 dm g b \<noteq> None" for b
      proof -
        from that have b: "lookup2 cq g b \<noteq> None" using n1 [OF f gs g h] by simp
        from Kb [OF f gs g h b] have "lookup2 cq g (''Rand42_'' @ take 8 f) \<noteq> None" by simp
        with b show ?thesis using n1 [OF f gs g h] n2 [OF f gs g h] by simp
      qed
      then show "map_of dm g \<noteq> None \<and>
             (\<forall>b. lookup2 dm g b \<noteq> None \<longrightarrow>
                lookup2 dm g (''Rand42_'' @ take 8 f) \<noteq> None \<and> lookup2 ds g b \<noteq> None \<and>
                lookup2 ds g (''Rand42_'' @ take 8 f) \<noteq> None)"
        using nd [OF G h] by auto
    qed
    then show "\<exists>genes. map_of gl (take 8 f) = Some genes \<and>
            (\<forall>g\<in>set genes. \<forall>t. \<exists>t'. baseline_gene dm ds (take 8 f) g t = Inr t')"
      using gs by auto
  qed
  then obtain ddm dds where s3: "for_each_gene fl gl (baseline_gene dm ds) ([], []) = Inr (ddm, dds)"
    by (cases) auto
  note bd = baseline_all_dom [OF s3]
  note bs = baseline_all_sem [OF s3]
  \<comment> \<open>fourth pass\<close>
  have "(\<exists>s'. for_each_gene fl gl (linearize_gene ddm dds) ([], []) = Inr s') \<or>
        for_each_gene fl gl (linearize_gene ddm dds) ([], []) = Inl OverflowError"
  proof (rule for_each_gene_succeeds_or)
    fix f assume f: "f \<in> set fl"
    from genes [OF f] obtain gs where gs: "map_of gl (take 8 f) = Some gs" by auto
    have "(\<exists>t'. linearize_gene ddm dds (take 8 f) g t = Inr t') \<or>
          linearize_gene ddm dds (take 8 f) g t = Inl OverflowError" if g: "g \<in> set gs" for g t
    proof (rule linearize_gene_succeeds_or)
      assume h: "g \<noteq> ''hcaT''"
      note G = in_genes [OF f gs g]
      show "map_of ddm g \<noteq> None \<and> (\<forall>b. lookup2 ddm g b \<noteq> None \<longrightarrow> lookup2 dds g b \<noteq> None)"
        using bd [OF G h] bs by auto
    qed
    then show "\<exists>genes. map_of gl (take 8 f) = Some genes \<and>
            (\<forall>g\<in>set genes. \<forall>t. (\<exists>t'. linearize_gene ddm dds (take 8 f) g t = Inr t') \<or>
               linearize_gene ddm dds (take 8 f) g t = Inl OverflowError)"
      using gs by auto
  qed
  then have "(\<exists>lm ls. for_each_gene fl gl (linearize_gene ddm dds) ([], []) = Inr (lm, ls)) \<or>
        for_each_gene fl gl (linearize_gene ddm dds) ([], []) = Inl OverflowError"
    by auto
  with s1 s2 s3 show ?thesis by blast
qed

lemma keyed_relative_expression:
  assumes "keyed fl gl cq"
  shows "(\<exists>res. relative_expression fl gl cq = Inr res) \<or>
         relative_expression fl gl cq = Inl OverflowError"
proof -
  from keyed_passes [OF assms] obtain cm cs dm ds ddm dds where
    s: "for_each_gene fl gl (aggregate_gene cq) ([], []) = Inr (cm, cs)"
       "for_each_gene fl gl (normalize_gene cm cs) ([], []) = Inr (dm, ds)"
       "for_each_gene fl gl (baseline_gene dm ds) ([], []) = Inr (ddm, dds)" and
    l: "(\<exists>lm ls. for_each_gene fl gl (linearize_gene ddm dds) ([], []) = Inr (lm, ls)) \<or>
        for_each_gene fl gl (linearize_gene ddm dds) ([], []) = Inl OverflowError"
    by blast
  from l show ?thesis
    by (auto simp add: relative_expression_def pass_defs s)
qed

text \<open>The first three passes return only with the keys in place.\<close>

lemma passes_keyed:
  assumes s1: "for_each_gene fl gl (aggregate_gene cq) ([], []) = Inr (cm, cs)"
    and s2: "for_each_gene fl gl (normalize_gene cm cs) ([], []) = Inr (dm, ds)"
    and s3: "for_each_gene fl gl (baseline_gene dm ds) ([], []) = Inr (ddm, dds)"
  shows "keyed fl gl cq"
  unfolding keyed_iff
proof (intro ballI)
  fix f assume f: "f \<in> set fl"
  note a = aggregate_all [OF s1]
  from for_each_gene_ran [OF s1 f] obtain genes where
    gs: "map_of gl (take 8 f) = Some genes" and
    r1: "\<forall>g\<in>set genes. \<exists>t t'. aggregate_gene cq (take 8 f) g t = Inr t'"
    by auto
  from for_each_gene_ran [OF s2 f] gs have
    r2: "\<forall>g\<in>set genes. \<exists>t t'. normalize_gene cm cs (take 8 f) g t = Inr t'"
    by auto
  from for_each_gene_ran [OF s3 f] gs have
    r3: "\<forall>g\<in>set genes. \<exists>t t'. baseline_gene dm ds (take 8 f) g t = Inr t'"
    by auto
  have "map_of cq g \<noteq> None \<and>
           (g \<noteq> ''hcaT'' \<longrightarrow>
              (\<forall>b. lookup2 cq g b \<noteq> None \<longrightarrow>
                 ''hcaT'' \<in> set (genes_of fl gl) \<and> lookup2 cq ''hcaT'' b \<noteq> None \<and>
                 lookup2 cq g (''Rand42_'' @ take 8 f) \<noteq> None))" if g: "g \<in> set genes" for g
  proof (intro conjI impI allI)
    from r1 g aggregate_gene_needs show "map_of cq g \<noteq> None" by blast
  next
    fix b assume h: "g \<noteq> ''hcaT''" and b: "lookup2 cq g b \<noteq> None"
    have G: "g \<in> set (genes_of fl gl)" using f gs g by (auto simp add: in_genes_of)
    note n = normalize_all [OF s2 G h]
    from r2 g obtain t t' where
      "normalize_gene cm cs (take 8 f) g t = Inr t'" by blast
    note ng = normalize_gene_Inr [OF this h]
    from r3 g obtain u u' where
      "baseline_gene dm ds (take 8 f) g u = Inr u'" by blast
    note bg = baseline_gene_Inr [OF this h]
    have cmb: "lookup2 cm g b \<noteq> None" using a(1) [of g b] G b by auto
    with ng have hb: "lookup2 cm ''hcaT'' b \<noteq> None"
      by (auto simp add: opt2_eq_Some)
    then show H: "''hcaT'' \<in> set (genes_of fl gl)" using a(1) [of "''hcaT''" b] by (auto split: if_splits)
    from hb show "lookup2 cq ''hcaT'' b \<noteq> None" using a(1) [of "''hcaT''" b] by (auto split: if_splits)
    from cmb hb have "lookup2 dm g b \<noteq> None" using n by auto
    with bg have "lookup2 dm g (''Rand42_'' @ take 8 f) \<noteq> None"
      by (auto simp add: opt2_eq_Some)
    then have "lookup2 cm g (''Rand42_'' @ take 8 f) \<noteq> None"
      using n by (auto simp add: opt2_eq_Some)
    then show "lookup2 cq g (''Rand42_'' @ take 8 f) \<noteq> None"
      using a(1) [of g "''Rand42_'' @ take 8 f"] G by auto
  qed
  then show "\<exists>genes. map_of gl (take 8 f) = Some genes \<and>
        (\<forall>g\<in>set genes. map_of cq g \<noteq> None \<and>
           (g \<noteq> ''hcaT'' \<longrightarrow>
              (\<forall>b. lookup2 cq g b \<noteq> None \<longrightarrow>
                 ''hcaT'' \<in> set (genes_of fl gl) \<and> lookup2 cq ''hcaT'' b \<noteq> None \<and>
                 lookup2 cq g (''Rand42_'' @ take 8 f) \<noteq> None)))"
    using gs by auto
qed

lemma relative_expression_keyed:
  assumes "relative_expression fl gl cq = Inr res"
  shows "keyed fl gl cq"
  using relative_expression_Inr(1,2,3) [OF assms] by (rule passes_keyed)

text \<open>
  The calculation raises \<^verbatim>\<open>KeyError\<close> exactly where a key is missing, and raises nothing but
  \<^verbatim>\<open>KeyError\<close> and the \<^verbatim>\<open>OverflowError\<close> of \<^verbatim>\<open>math.pow\<close>.
\<close>

lemma relative_expression_fails_iff:
  "relative_expression fl gl cq = Inl KeyError \<longleftrightarrow> \<not> keyed fl gl cq"
proof
  assume "relative_expression fl gl cq = Inl KeyError"
  then show "\<not> keyed fl gl cq" using keyed_relative_expression [of fl gl cq] by auto
next
  assume k: "\<not> keyed fl gl cq"
  show "relative_expression fl gl cq = Inl KeyError"
  proof (cases "for_each_gene fl gl (aggregate_gene cq) ([], [])")
    case (Inl e)
    from for_each_gene_Inl [OF Inl] aggregate_gene_Inl have "e = KeyError" by blast
    then show ?thesis using Inl by (simp add: relative_expression_def pass_defs)
  next
    case s1: (Inr t1)
    obtain cm cs where t1: "t1 = (cm, cs)" by (cases t1)
    show ?thesis
    proof (cases "for_each_gene fl gl (normalize_gene cm cs) ([], [])")
      case (Inl e)
      from for_each_gene_Inl [OF Inl] normalize_gene_Inl have "e = KeyError" by blast
      then show ?thesis using s1 t1 Inl by (simp add: relative_expression_def pass_defs)
    next
      case s2: (Inr t2)
      obtain dm ds where t2: "t2 = (dm, ds)" by (cases t2)
      note safe = normalize_all_safe [OF s2 [unfolded t2]]
      show ?thesis
      proof (cases "for_each_gene fl gl (baseline_gene dm ds) ([], [])")
        case (Inl e)
        from for_each_gene_Inl [OF Inl] baseline_gene_Inl safe have "e = KeyError" by blast
        then show ?thesis using s1 t1 s2 t2 Inl by (simp add: relative_expression_def pass_defs)
      next
        case s3: (Inr t3)
        obtain ddm dds where t3: "t3 = (ddm, dds)" by (cases t3)
        from passes_keyed [OF s1 [unfolded t1] s2 [unfolded t2] s3 [unfolded t3]] k
        show ?thesis by simp
      qed
    qed
  qed
qed

lemma relative_expression_Inl:
  assumes "relative_expression fl gl cq = Inl e"
  shows "e = KeyError \<and> \<not> keyed fl gl cq \<or> e = OverflowError \<and> keyed fl gl cq"
proof (cases "keyed fl gl cq")
  case True
  from keyed_relative_expression [OF True] assms show ?thesis using True by auto
next
  case False
  then show ?thesis using assms by (simp add: relative_expression_fails_iff [symmetric])
qed

subsection \<open>Import data\<close>

lemma index_simps:
  "i < length xs \<Longrightarrow> index xs i = Inr (xs ! i)"
  "\<not> i < length xs \<Longrightarrow> index xs i = Inl IndexError"
  by (simp_all add: index_def)

lemma import_line_cases:
  assumes "split (CHR '','') line = sp"
  shows "import_line pf gl date line cq =
     (if length sp < 3 then Inl IndexError
      else if sp ! 2 = [] then Inr cq
      else if length sp < 6 then Inl IndexError
      else if sp ! 5 = [] then Inr cq
      else (case map_of gl date of
              None \<Rightarrow> Inl KeyError
            | Some genes \<Rightarrow>
                if sp ! 2 \<notin> set genes then Inr cq
                else (case map_of cq (sp ! 2) of
                        None \<Rightarrow> Inl KeyError
                      | Some tbl \<Rightarrow>
                          (case map_of tbl (sp ! 4) of
                             None \<Rightarrow> Inr cq
                           | Some xs \<Rightarrow>
                               (case pf (sp ! 5) of
                                  None \<Rightarrow> Inl ValueError
                                | Some v \<Rightarrow> Inr (setitem cq (sp ! 2) (setitem tbl (sp ! 4) (xs @ [v]))))))))"
  by (auto simp add: import_line_def assms Let_def index_def getitem_def getitem2_def setitem2_def
      set_dict_keys domIff split: option.splits)


lemma same_keys_refl: "same_keys cq cq"
  by (simp add: same_keys_def)


lemma same_keys_trans: "same_keys c b \<Longrightarrow> same_keys b a \<Longrightarrow> same_keys c a"
  by (simp add: same_keys_def)


lemma keyed_cong:
  assumes "same_keys cq' cq"
  shows "keyed fl gl cq' \<longleftrightarrow> keyed fl gl cq"
  using assms unfolding keyed_iff same_keys_def by simp


lemma import_line_keys:
  assumes "import_line pf gl d line cq = Inr cq'"
  shows "same_keys cq' cq"
proof -
  have "same_keys (setitem cq g (setitem tbl k v)) cq"
    if "map_of cq g = Some tbl" "map_of tbl k = Some xs" for g tbl k v xs
    using that by (auto simp add: same_keys_def map_of_setitem lookup2_def)
  with assms show ?thesis
    by (auto simp add: import_line_cases [OF refl] same_keys_refl split: if_splits option.splits)
qed

lemma import_file_keys:
  assumes "import_file pf gl d lines cq = Inr cq'"
  shows "same_keys cq' cq"
proof (rule for_each_inv [where I = "\<lambda>c. same_keys c cq"])
  show "for_each (drop 1 lines) (import_line pf gl d) cq = Inr cq'"
    using assms by (simp add: import_file_def)
  show "same_keys cq cq" by (rule same_keys_refl)
next
  fix x t t'
  assume "same_keys t cq" and "import_line pf gl d x t = Inr t'"
  then show "same_keys t' cq" using import_line_keys same_keys_trans by blast
qed


lemma import_data_keys:
  assumes "import_data pf fs fl gl cq = Inr cq'"
  shows "same_keys cq' cq"
proof (rule for_each_inv [where I = "\<lambda>c. same_keys c cq"])
  show "for_each fl (\<lambda>file_name cq_dict.
       let file_date = take 8 file_name
       in (case fs (input_path @ file_name) of
             None \<Rightarrow> Inl IOError
           | Some lines \<Rightarrow> import_file pf gl file_date lines cq_dict)) cq = Inr cq'"
    using assms by (simp add: import_data_def)
  show "same_keys cq cq" by (rule same_keys_refl)
next
  fix x t t'
  assume i: "same_keys t cq" and
    b: "(let file_date = take 8 x
       in (case fs (input_path @ x) of
             None \<Rightarrow> Inl IOError
           | Some lines \<Rightarrow> import_file pf gl file_date lines t)) = Inr t'"
  from b obtain lines where "import_file pf gl (take 8 x) lines t = Inr t'"
    by (auto simp add: Let_def split: option.splits)
  from import_file_keys [OF this] i show "same_keys t' cq" by (rule same_keys_trans)
qed

subsection \<open>Key initialization\<close>

lemma for_each_establish_at:
  assumes "for_each xs body s = Inr s'" and "x \<in> set xs"
    and "\<And>t t'. body x t = Inr t' \<Longrightarrow> Q t'"
    and "\<And>y t t'. body y t = Inr t' \<Longrightarrow> Q t \<Longrightarrow> Q t'"
  shows "Q s'"
  by (rule for_each_establish [where G = x and Q = Q, OF assms(1)])
    (use assms in auto)


lemma for_each_gene_establish_at:
  assumes "for_each_gene fl gl body s = Inr s'"
    and "f \<in> set fl" and "map_of gl (take 8 f) = Some genes" and "G \<in> set genes"
    and est: "\<And>t t'. body (take 8 f) G t = Inr t' \<Longrightarrow> Q t'"
    and pres: "\<And>d g t t'. body d g t = Inr t' \<Longrightarrow> Q t \<Longrightarrow> Q t'"
  shows "Q s'"
  using assms(1,2)
proof (induction fl arbitrary: s)
  case Nil
  then show ?case by simp
next
  case (Cons f' fl)
  from Cons.prems(1) obtain genes' s1 where
    g: "map_of gl (take 8 f') = Some genes'" and
    l: "for_each genes' (body (take 8 f')) s = Inr s1" and
    r: "for_each_gene fl gl body s1 = Inr s'"
    by (auto simp add: for_each_gene_Cons ebind_eq_Inr getitem_eq_Inr)
  have rest: "Q s'" if "Q s1"
    by (rule for_each_gene_inv [where I = Q, OF r that]) (use pres in blast)
  show ?case
  proof (cases "f = f'")
    case True
    then have "genes' = genes" using g assms(3) by simp
    have "Q s1"
      by (rule for_each_establish_at [where x = G and Q = Q, OF l])
        (use \<open>genes' = genes\<close> True assms(4) est pres in auto)
    then show ?thesis by (rule rest)
  next
    case False
    then have "f \<in> set fl" using Cons.prems(2) by simp
    from Cons.IH [OF r this] show ?thesis .
  qed
qed

lemma reset_gene_Inr: "reset_gene d g t = Inr t' \<longleftrightarrow> t' = setitem t g []"
  by (auto simp add: reset_gene_def)

lemma reset_all_empty:
  assumes "for_each_gene fl gl reset_gene [] = Inr cq"
  shows "lookup2 cq a b = None"
proof -
  let ?I = "\<lambda>c :: cqs. \<forall>a b. lookup2 c a b = None"
  have "?I cq"
  proof (rule for_each_gene_inv [where I = ?I, OF assms])
    show "?I []" by simp
  next
    fix f genes g t t'
    assume "?I t" and "reset_gene (take 8 f) g t = Inr t'"
    then show "?I t'" by (simp add: reset_gene_Inr lookup2_setitem)
  qed
  then show ?thesis by simp
qed

lemma reset_all_dom:
  assumes "for_each_gene fl gl reset_gene [] = Inr cq"
  shows "dom (map_of cq) = set (genes_of fl gl)"
proof -
  let ?I = "\<lambda>c :: cqs. dom (map_of c) \<subseteq> set (genes_of fl gl)"
  have sub: "?I cq"
  proof (rule for_each_gene_inv [where I = ?I, OF assms])
    show "?I []" by simp
  next
    fix f genes g t t'
    assume f: "f \<in> set fl" "map_of gl (take 8 f) = Some genes" "g \<in> set genes"
      and i: "?I t" and b: "reset_gene (take 8 f) g t = Inr t'"
    from f have "g \<in> set (genes_of fl gl)" by (auto simp add: in_genes_of)
    moreover have "dom (map_of t') = insert g (dom (map_of t))"
      using b by (simp add: reset_gene_Inr map_of_setitem)
    ultimately show "?I t'" using i by simp
  qed
  have "G \<in> dom (map_of cq)" if G: "G \<in> set (genes_of fl gl)" for G
  proof (rule for_each_gene_establish [where G = G and Q = "\<lambda>c :: cqs. G \<in> dom (map_of c)", OF assms G])
    fix f genes t t'
    assume "reset_gene (take 8 f) G t = Inr t'"
    then show "G \<in> dom (map_of t')" by (simp add: reset_gene_Inr map_of_setitem)
  next
    fix d g t t'
    assume "reset_gene d g t = Inr t'" and "G \<in> dom (map_of t)"
    then show "G \<in> dom (map_of t')" by (auto simp add: reset_gene_Inr map_of_setitem)
  qed
  with sub show ?thesis by blast
qed

lemma init_gene_keys_Inr:
  assumes "init_gene_keys d g cq = Inr cq'" and "g \<noteq> ''hcaT''"
  shows "lookup2 cq' a b \<noteq> None \<longleftrightarrow>
           lookup2 cq a b \<noteq> None \<or>
           (a = g \<or> a = ''hcaT'') \<and> (b = g @ ''1_C'' \<or> b = g @ ''3_C'' \<or> b = ''Rand42_'' @ d)"
    and "dom (map_of cq') = dom (map_of cq)"
proof -
  from assms obtain c1 c2 c3 c4 c5 where
    s: "setitem2 cq g (g @ ''1_C'') [] = Inr c1"
       "setitem2 c1 g (g @ ''3_C'') [] = Inr c2"
       "setitem2 c2 g (''Rand42_'' @ d) [] = Inr c3"
       "setitem2 c3 ''hcaT'' (g @ ''1_C'') [] = Inr c4"
       "setitem2 c4 ''hcaT'' (g @ ''3_C'') [] = Inr c5"
       "setitem2 c5 ''hcaT'' (''Rand42_'' @ d) [] = Inr cq'"
    by (auto simp add: init_gene_keys_def ebind_eq_Inr)
  note l = s [THEN lookup2_setitem2]
  note dm = s [THEN dom_setitem2]
  show "lookup2 cq' a b \<noteq> None \<longleftrightarrow>
           lookup2 cq a b \<noteq> None \<or>
           (a = g \<or> a = ''hcaT'') \<and> (b = g @ ''1_C'' \<or> b = g @ ''3_C'' \<or> b = ''Rand42_'' @ d)"
    unfolding l by auto
  show "dom (map_of cq') = dom (map_of cq)"
    using dm by simp
qed

lemma init_gene_keys_hcaT: "init_gene_keys d ''hcaT'' cq = Inr cq"
  by (simp add: init_gene_keys_def)

lemma init_gene_keys_mono:
  assumes "init_gene_keys d g cq = Inr cq'" and "lookup2 cq a b \<noteq> None"
  shows "lookup2 cq' a b \<noteq> None"
proof (cases "g = ''hcaT''")
  case True
  then show ?thesis using assms by (simp add: init_gene_keys_hcaT)
next
  case False
  from init_gene_keys_Inr(1) [OF assms(1) False] assms(2) show ?thesis by blast
qed

lemma init_keys_Inr:
  assumes "init_keys fl gl = Inr cq"
  shows "dom (map_of cq) = set (genes_of fl gl)"
    and "g \<noteq> ''hcaT'' \<Longrightarrow> lookup2 cq g b \<noteq> None \<Longrightarrow> lookup2 cq ''hcaT'' b \<noteq> None"
    and "f \<in> set fl \<Longrightarrow> \<exists>genes. map_of gl (take 8 f) = Some genes \<and>
           (\<forall>g\<in>set genes. g \<noteq> ''hcaT'' \<longrightarrow> lookup2 cq g (''Rand42_'' @ take 8 f) \<noteq> None)"
proof -
  from assms obtain cq1 where
    p1: "for_each_gene fl gl reset_gene [] = Inr cq1" and
    p2: "for_each_gene fl gl init_gene_keys cq1 = Inr cq"
    by (auto simp add: init_keys_def ebind_eq_Inr)
  note r = reset_all_empty [OF p1] reset_all_dom [OF p1]
  have "dom (map_of cq) = dom (map_of cq1)"
  proof (rule for_each_gene_inv [where I = "\<lambda>c :: cqs. dom (map_of c) = dom (map_of cq1)", OF p2])
    fix f genes g t t'
    assume "dom (map_of t) = dom (map_of cq1)" and "init_gene_keys (take 8 f) g t = Inr t'"
    then show "dom (map_of t') = dom (map_of cq1)"
      using init_gene_keys_Inr(2) [of "take 8 f" g t t'] by (cases "g = ''hcaT''") (auto simp add: init_gene_keys_hcaT)
  qed simp
  then show "dom (map_of cq) = set (genes_of fl gl)" using r(2) by simp
  let ?I = "\<lambda>c :: cqs. \<forall>g b. g \<noteq> ''hcaT'' \<longrightarrow> lookup2 c g b \<noteq> None \<longrightarrow> lookup2 c ''hcaT'' b \<noteq> None"
  have "?I cq"
  proof (rule for_each_gene_inv [where I = ?I, OF p2])
    show "?I cq1" using r(1) by simp
  next
    fix f genes g t t'
    assume i: "?I t" and b: "init_gene_keys (take 8 f) g t = Inr t'"
    show "?I t'"
    proof (cases "g = ''hcaT''")
      case True
      then show ?thesis using i b by (simp add: init_gene_keys_hcaT)
    next
      case False
      note k = init_gene_keys_Inr(1) [OF b False]
      show ?thesis unfolding k using i by blast
    qed
  qed
  then show "g \<noteq> ''hcaT'' \<Longrightarrow> lookup2 cq g b \<noteq> None \<Longrightarrow> lookup2 cq ''hcaT'' b \<noteq> None"
    by blast
  show "\<exists>genes. map_of gl (take 8 f) = Some genes \<and>
           (\<forall>g\<in>set genes. g \<noteq> ''hcaT'' \<longrightarrow> lookup2 cq g (''Rand42_'' @ take 8 f) \<noteq> None)"
    if f: "f \<in> set fl"
  proof -
    from for_each_gene_ran [OF p2 f] obtain genes where gs: "map_of gl (take 8 f) = Some genes"
      by auto
    have "lookup2 cq g (''Rand42_'' @ take 8 f) \<noteq> None" if g: "g \<in> set genes" and h: "g \<noteq> ''hcaT''" for g
    proof (rule for_each_gene_establish_at
        [where G = g and Q = "\<lambda>c :: cqs. lookup2 c g (''Rand42_'' @ take 8 f) \<noteq> None", OF p2 f gs g])
      fix t t' assume "init_gene_keys (take 8 f) g t = Inr t'"
      from init_gene_keys_Inr(1) [OF this h] show "lookup2 t' g (''Rand42_'' @ take 8 f) \<noteq> None"
        by blast
    next
      fix d g' t t'
      assume "init_gene_keys d g' t = Inr t'" and "lookup2 t g (''Rand42_'' @ take 8 f) \<noteq> None"
      then show "lookup2 t' g (''Rand42_'' @ take 8 f) \<noteq> None" by (rule init_gene_keys_mono)
    qed
    with gs show ?thesis by auto
  qed
qed

lemma init_keys_keyed:
  assumes "init_keys fl gl = Inr cq"
  shows "keyed fl gl cq"
  unfolding keyed_iff
proof (intro ballI)
  fix f assume f: "f \<in> set fl"
  note i = init_keys_Inr [OF assms]
  from i(3) [OF f] obtain genes where
    gs: "map_of gl (take 8 f) = Some genes" and
    ref: "\<forall>g\<in>set genes. g \<noteq> ''hcaT'' \<longrightarrow> lookup2 cq g (''Rand42_'' @ take 8 f) \<noteq> None"
    by auto
  have "map_of cq g \<noteq> None \<and>
           (g \<noteq> ''hcaT'' \<longrightarrow>
              (\<forall>b. lookup2 cq g b \<noteq> None \<longrightarrow>
                 ''hcaT'' \<in> set (genes_of fl gl) \<and> lookup2 cq ''hcaT'' b \<noteq> None \<and>
                 lookup2 cq g (''Rand42_'' @ take 8 f) \<noteq> None))" if g: "g \<in> set genes" for g
  proof (intro conjI impI allI)
    have "g \<in> set (genes_of fl gl)" using f gs g by (auto simp add: in_genes_of)
    then show "map_of cq g \<noteq> None" using i(1) by auto
  next
    fix b assume h: "g \<noteq> ''hcaT''" and b: "lookup2 cq g b \<noteq> None"
    from i(2) [OF h b] show hb: "lookup2 cq ''hcaT'' b \<noteq> None" .
    then have "map_of cq ''hcaT'' \<noteq> None" by (auto simp add: lookup2_def split: option.splits)
    then show "''hcaT'' \<in> set (genes_of fl gl)" using i(1) by auto
    from ref g h show "lookup2 cq g (''Rand42_'' @ take 8 f) \<noteq> None" by simp
  qed
  with gs show "\<exists>genes. map_of gl (take 8 f) = Some genes \<and>
        (\<forall>g\<in>set genes. map_of cq g \<noteq> None \<and>
           (g \<noteq> ''hcaT'' \<longrightarrow>
              (\<forall>b. lookup2 cq g b \<noteq> None \<longrightarrow>
                 ''hcaT'' \<in> set (genes_of fl gl) \<and> lookup2 cq ''hcaT'' b \<noteq> None \<and>
                 lookup2 cq g (''Rand42_'' @ take 8 f) \<noteq> None)))"
    by auto
qed


subsection \<open>Means and standard errors of moderate values\<close>

lemma rnd_moderate: "\<bar>r\<bar> \<le> 2 ^ 1000 \<Longrightarrow> rnd r = Fin r"
proof (rule rnd_Fin)
  assume "\<bar>r\<bar> \<le> 2 ^ 1000"
  moreover have "(2::real) ^ 1000 < overflow_at" by (simp add: overflow_at_def)
  ultimately show "- overflow_at < r" "r < overflow_at" by linarith+
qed

lemma foldl_fadd_Fin:
  "\<bar>acc\<bar> + sum_list (map abs rs) < overflow_at \<Longrightarrow>
   foldl fadd (Fin acc) (map Fin rs) = Fin (acc + sum_list rs)"
proof (induction rs arbitrary: acc)
  case Nil
  then show ?case by simp
next
  case (Cons r rs)
  have nn: "0 \<le> sum_list (map abs rs)" by (rule sum_list_nonneg) auto
  from Cons.prems nn have "\<bar>acc + r\<bar> < overflow_at" by simp
  then have 1: "rnd (acc + r) = Fin (acc + r)" by (intro rnd_Fin) linarith+
  from Cons.prems have "\<bar>acc + r\<bar> + sum_list (map abs rs) < overflow_at" by simp
  from Cons.IH [OF this] 1 show ?case by (simp add: add.assoc)
qed

lemma sum_abs_le:
  "\<forall>r\<in>set rs. \<bar>r\<bar> \<le> M \<Longrightarrow> sum_list (map abs rs) \<le> real (length rs) * M"
  by (induction rs) (auto simp add: algebra_simps)

lemma abs_sum_le: "\<bar>sum_list rs\<bar> \<le> sum_list (map abs (rs :: real list))"
  by (induction rs) auto

lemma add_reduce_Fin:
  assumes "\<forall>r\<in>set rs. \<bar>r\<bar> \<le> M" and "length rs \<le> 1000000" and "M \<le> 2 ^ 900"
  shows "add_reduce (map Fin rs) = Fin (sum_list rs)"
proof -
  have "real (length rs) * M \<le> 1000000 * 2 ^ 900"
  proof (cases "rs = []")
    case True
    then show ?thesis by simp
  next
    case False
    then obtain r where "r \<in> set rs" by (cases rs) auto
    with assms(1) have "0 \<le> M" by fastforce
    with assms(2,3) show ?thesis by (intro mult_mono) simp_all
  qed
  moreover have "(1000000::real) * 2 ^ 900 < overflow_at" by (simp add: overflow_at_def)
  ultimately have "\<bar>0\<bar> + sum_list (map abs rs) < overflow_at"
    using sum_abs_le [OF assms(1)] by simp
  from foldl_fadd_Fin [OF this] show ?thesis by (simp add: add_reduce_def)
qed

lemma asarray_Fin:
  "\<forall>r\<in>set rs. \<bar>r\<bar> \<le> 1000000 \<Longrightarrow> asarray (map Fin rs) = map Fin rs"
  by (simp add: asarray_def rnd_small)

lemma mean_abs_le:
  assumes "rs \<noteq> []" and "\<forall>r\<in>set rs. \<bar>r\<bar> \<le> M"
  shows "\<bar>mean rs\<bar> \<le> M"
proof -
  have n: "0 < real (length rs)" using assms(1) by simp
  have "\<bar>sum_list rs\<bar> \<le> real (length rs) * M"
    using abs_sum_le [of rs] sum_abs_le [OF assms(2)] by linarith
  then have "\<bar>sum_list rs\<bar> / real (length rs) \<le> M"
    using n by (simp add: pos_divide_le_eq mult.commute)
  then show ?thesis by (simp add: mean_def)
qed

lemma np_mean_moderate:
  assumes "moderate rs"
  shows "np_mean (map Fin rs) = Fin (mean rs)"
proof -
  from assms have b: "\<forall>r\<in>set rs. \<bar>r\<bar> \<le> 1000000" and l: "length rs \<le> 1000000" and ne: "rs \<noteq> []"
    by (simp_all add: moderate_def list_all_iff)
  have a: "asarray (map Fin rs) = map Fin rs" by (rule asarray_Fin [OF b])
  have s: "add_reduce (map Fin rs) = Fin (sum_list rs)" by (rule add_reduce_Fin [OF b l]) simp
  from mean_abs_le [OF ne b] have "rnd (mean rs) = Fin (mean rs)" by (rule rnd_small)
  then show ?thesis
    using ne by (simp add: np_mean_def a s mean_def)
qed


lemma cq_values_moderate: "cq_values rs \<Longrightarrow> moderate rs"
  by (auto simp add: cq_values_def moderate_def list_all_iff)

lemma mean_cq_values:
  assumes "cq_values rs"
  shows "0 \<le> mean rs" "mean rs \<le> 500"
proof -
  from assms have b: "\<forall>r\<in>set rs. 0 \<le> r \<and> r \<le> 500" and ne: "rs \<noteq> []"
    by (auto simp add: cq_values_def list_all_iff)
  have "0 \<le> sum_list rs" using b by (intro sum_list_nonneg) simp
  then show "0 \<le> mean rs" by (simp add: mean_def)
  from b have "\<forall>r\<in>set rs. \<bar>r\<bar> \<le> 500" by auto
  from mean_abs_le [OF ne this] show "mean rs \<le> 500" by simp
qed

lemma map_map_Fin:
  "\<forall>r\<in>set rs. f (Fin r) = Fin (g r) \<Longrightarrow> map f (map Fin rs) = map Fin (map g rs)"
  by simp

lemma stats_sem_cq_values:
  assumes "cq_values rs"
  shows "\<exists>s. stats_sem (map Fin rs) = Fin s \<and> 0 \<le> s \<and> s \<le> 1000000"
proof -
  from assms have b: "\<forall>r\<in>set rs. 0 \<le> r \<and> r \<le> 500" and l: "length rs \<le> 1000000"
    and n2: "2 \<le> length rs"
    by (auto simp add: cq_values_def list_all_iff)
  let ?n = "length rs"
  let ?m = "mean rs"
  let ?ds = "map (\<lambda>r. r - ?m) rs"
  let ?qs = "map (\<lambda>d. d * d) ?ds"
  let ?v = "sum_list ?qs / real (?n - 1)"
  note m = mean_cq_values [OF assms]
  have b': "\<forall>r\<in>set rs. \<bar>r\<bar> \<le> 1000000" using b by auto
  have a: "asarray (map Fin rs) = map Fin rs" by (rule asarray_Fin [OF b'])
  have s: "add_reduce (map Fin rs) = Fin (sum_list rs)" by (rule add_reduce_Fin [OF b' l]) simp
  have ne: "rs \<noteq> []" using n2 by auto
  have am: "fdiv (Fin (sum_list rs)) (real ?n) = Fin ?m"
    using ne m by (simp add: mean_def [symmetric] rnd_small)
  have d: "\<bar>r - ?m\<bar> \<le> 500" if "r \<in> set rs" for r
    using b that m by auto
  have d6: "\<bar>r - ?m\<bar> \<le> 1000000" if "r \<in> set rs" for r
    using d [OF that] by simp
  have ds: "map (\<lambda>v. fsub v (Fin ?m)) (map Fin rs) = map Fin ?ds"
    by (rule map_map_Fin) (simp add: fsub_def rnd_small d6)
  have q: "\<bar>(r - ?m) * (r - ?m)\<bar> \<le> 250000" if "r \<in> set rs" for r
  proof -
    have "\<bar>r - ?m\<bar> * \<bar>r - ?m\<bar> \<le> 500 * 500"
      by (intro mult_mono d [OF that]) simp_all
    then show ?thesis by (simp add: abs_mult)
  qed
  have q6: "rnd ((r - ?m) * (r - ?m)) = Fin ((r - ?m) * (r - ?m))" if "r \<in> set rs" for r
    by (rule rnd_small) (use q [OF that] in linarith)
  have qs: "map (\<lambda>v. fmul v v) (map Fin ?ds) = map Fin ?qs"
    by (rule map_map_Fin) (simp add: q6)
  have qb: "\<forall>x\<in>set ?qs. \<bar>x\<bar> \<le> 250000" using q by auto
  have sq: "add_reduce (map Fin ?qs) = Fin (sum_list ?qs)"
    by (rule add_reduce_Fin [OF qb]) (use l in simp_all)
  have S0: "0 \<le> sum_list ?qs" by (rule sum_list_nonneg) auto
  have S1: "sum_list ?qs \<le> real ?n * 250000"
    using sum_abs_le [OF qb] abs_sum_le [of ?qs] by simp
  have n1: "1 \<le> real (?n - 1)" using n2 by simp
  have v0: "0 \<le> ?v" using S0 by simp
  have "?v \<le> sum_list ?qs"
    using S0 n1 by (simp add: divide_le_eq mult_le_cancel_left1)
  also have "\<dots> \<le> 1000000 * 250000" using S1 l by simp
  finally have v1: "?v \<le> 1000000 * 1000000" by simp
  have big: "(1000000::real) * 1000000 \<le> 2 ^ 1000" by simp
  have v2: "?v \<le> 2 ^ 1000" by (rule order_trans [OF v1 big])
  have "\<bar>?v\<bar> \<le> 2 ^ 1000" unfolding abs_of_nonneg [OF v0] by (rule v2)
  then have var: "fdiv (Fin (sum_list ?qs)) (real (?n - 1)) = Fin ?v"
    using n1 by (simp add: rnd_moderate)
  have r0: "0 \<le> sqrt ?v / sqrt (real ?n)" using v0 by simp
  have "sqrt ?v \<le> 1000000" using v1 by (intro real_le_lsqrt) (simp_all add: power2_eq_square)
  moreover have "1 \<le> sqrt (real ?n)" using n2 by simp
  ultimately have "sqrt ?v / sqrt (real ?n) \<le> 1000000 / 1"
    using v0 by (intro frac_le) simp_all
  then have r1: "sqrt ?v / sqrt (real ?n) \<le> 1000000" by simp
  have sem: "fdiv (Fin (sqrt ?v)) (sqrt (real ?n)) = Fin (sqrt ?v / sqrt (real ?n))"
    using ne r0 r1 by (simp add: rnd_small)
  have "np_std1 (map Fin rs) = np_sqrt (Fin ?v)"
    unfolding np_std1_def Let_def length_map s am ds qs sq var ..
  then have std: "np_std1 (map Fin rs) = Fin (sqrt ?v)" using v0 by simp
  have "stats_sem (map Fin rs) = Fin (sqrt ?v / sqrt (real ?n))"
    unfolding stats_sem_def Let_def a length_map std sem ..
  with r0 r1 show ?thesis by blast
qed

lemma root_sum_squares_Fin:
  assumes "0 \<le> a" "a \<le> M" "0 \<le> b" "b \<le> M" "M \<le> 2 ^ 400"
  shows "\<exists>c. root_sum_squares (Fin a) (Fin b) = Fin c \<and> 0 \<le> c \<and> c \<le> 2 * M"
proof -
  have M2: "M * M \<le> 2 ^ 400 * 2 ^ 400" using assms by (intro mult_mono) simp_all
  have a2: "a * a \<le> M * M" using assms by (intro mult_mono) simp_all
  have b2: "b * b \<le> M * M" using assms by (intro mult_mono) simp_all
  have p: "(2::real) ^ 400 * 2 ^ 400 + 2 ^ 400 * 2 ^ 400 \<le> 2 ^ 1000" by simp
  have a0: "0 \<le> a * a" and b0: "0 \<le> b * b" by simp_all
  have "\<bar>a * a\<bar> \<le> 2 ^ 1000" using a2 M2 p a0 by linarith
  then have ra: "rnd (a * a) = Fin (a * a)" by (rule rnd_moderate)
  have "\<bar>b * b\<bar> \<le> 2 ^ 1000" using b2 M2 p b0 by linarith
  then have rb: "rnd (b * b) = Fin (b * b)" by (rule rnd_moderate)
  have "\<bar>a * a + b * b\<bar> \<le> 2 ^ 1000" using a2 b2 M2 p a0 b0 by linarith
  then have rs: "rnd (a * a + b * b) = Fin (a * a + b * b)" by (rule rnd_moderate)
  have le: "sqrt (a * a + b * b) \<le> a + b"
    using sqrt_sum_squares_le_sum [OF assms(1,3)] by (simp add: power2_eq_square)
  have "\<not> a * a + b * b < 0" using a0 b0 by linarith
  then have "root_sum_squares (Fin a) (Fin b) = Fin (sqrt (a * a + b * b))"
    by (simp add: root_sum_squares_def ra rb rs)
  moreover have "0 \<le> sqrt (a * a + b * b)" by simp
  moreover have "sqrt (a * a + b * b) \<le> 2 * M" using le assms by linarith
  ultimately show ?thesis by blast
qed

lemma dbl_cases: "dbl x = NaN \<or> dbl x = PInf \<or> dbl x = NInf \<or>
    (\<exists>r. dbl x = Fin r \<and> - overflow_at < r \<and> r < overflow_at)"
  by (cases x) (auto simp add: rnd_def)

lemma np_std1_single: "np_std1 [dbl x] = NaN"
proof -
  from dbl_cases [of x] show ?thesis
  proof (elim disjE exE conjE)
    fix r assume "dbl x = Fin r" "- overflow_at < r" "r < overflow_at"
    then show ?thesis
      by (simp add: np_std1_def add_reduce_def fsub_def rnd_Fin)
  qed (simp_all add: np_std1_def add_reduce_def fsub_def)
qed

lemma stats_sem_short: "length xs < 2 \<Longrightarrow> stats_sem xs = NaN"
proof (cases xs)
  case Nil
  then show ?thesis by (simp add: stats_sem_def asarray_def np_std1_def add_reduce_def)
next
  case (Cons x ys)
  assume "length xs < 2"
  with Cons have "xs = [x]" by simp
  then show ?thesis by (simp add: stats_sem_def asarray_def np_std1_single)
qed

lemma np_mean_Nil: "np_mean [] = NaN"
  by (simp add: np_mean_def asarray_def add_reduce_def)

lemma map_of_map_values:
  "map_of (map (\<lambda>(k, v). (k, f k v)) xs) a = map_option (f a) (map_of xs a)"
  by (induction xs) auto

lemma map_of_shift_group:
  "map_of (shift_group cq G Gd k) a =
     map_option (map (\<lambda>(b, xs). (b, if a = G \<and> b = Gd then map (\<lambda>x. fsub x (Fin k)) xs else xs))) (map_of cq a)"
  unfolding shift_group_def by (rule map_of_map_values)

lemma lookup2_shift_group:
  "lookup2 (shift_group cq G Gd k) a b =
     map_option (\<lambda>xs. if a = G \<and> b = Gd then map (\<lambda>x. fsub x (Fin k)) xs else xs) (lookup2 cq a b)"
  by (cases "map_of cq a") (simp_all add: lookup2_def map_of_shift_group map_of_map_values)

lemma same_keys_shift_group: "same_keys (shift_group cq G Gd k) cq"
  by (simp add: same_keys_def map_of_shift_group lookup2_shift_group)


subsection \<open>The example inputs and the notebook\<close>

lemmas example_defs = example_files_def example_genes_def example_cq_def

lemmas parse_defs = py_float_def unsigned_float_def mantissa_def exponent_def scale_def is_e_def
  strip_def is_space_def lower_def digit_val_def rnd_small

lemmas import_defs = import_line_def index_def getitem_def getitem2_def setitem_def setitem2_def
  dict_keys_def Let_def

lemma example_genes_of: "genes_of example_files example_genes = [''hcaT'', ''gene'']"
  by (simp add: genes_of_def example_defs)

lemma example_init: "init_keys example_files example_genes = Inr example_initial_cq"
  by (simp add: example_files_def example_genes_def example_initial_cq_def init_keys_def
      for_each_gene_def reset_gene_def init_gene_keys_def getitem_def setitem_def setitem2_def Let_def)

lemma example_import:
  "import_data py_float example_fs example_files example_genes example_initial_cq =
     Inr example_imported_cq"
  by (simp add: import_data_def import_file_def example_fs_def example_files_def example_lines_def
      input_path_def example_genes_def example_initial_cq_def example_imported_cq_def
      import_defs parse_defs)

lemma example_imported_runs:
  "\<not> isl (relative_expression example_files example_genes example_imported_cq)"
  by (simp add: example_files_def example_genes_def example_imported_cq_def eval_defs)

text \<open>
  The notebook itself: its key initialization returns, and once its files are read the
  well correction returns and the calculation returns or raises \<^verbatim>\<open>OverflowError\<close>.
\<close>

lemma notebook_init: "\<not> isl (init_keys file_list gene_list)"
  by (simp add: file_list_def gene_list_def init_keys_def for_each_gene_def reset_gene_def
      init_gene_keys_def getitem_def setitem_def setitem2_def Let_def)

lemma notebook_returns:
  assumes "init_keys file_list gene_list = Inr cq0"
    and "import_data pf fs file_list gene_list cq0 = Inr cq"
  shows "(\<exists>res. notebook pf fs = Inr res) \<or> notebook pf fs = Inl OverflowError"
proof -
  note i = init_keys_Inr [OF assms(1)]
  have k0: "keyed file_list gene_list cq0" by (rule init_keys_keyed [OF assms(1)])
  note sk = import_data_keys [OF assms(2)]
  have f: "''20200806_luna_rtqpcr_quant.csv'' \<in> set file_list" by (simp add: file_list_def)
  from i(3) [OF f] have t: "lookup2 cq0 ''topA'' ''Rand42_20200806'' \<noteq> None"
    by (simp add: gene_list_def)
  from i(2) [OF _ t] have "lookup2 cq0 ''hcaT'' ''Rand42_20200806'' \<noteq> None" by simp
  then have h: "lookup2 cq ''hcaT'' ''Rand42_20200806'' \<noteq> None" using sk by (simp add: same_keys_def)
  then obtain tbl where tbl: "map_of cq ''hcaT'' = Some tbl"
    by (auto simp add: lookup2_def split: option.splits)
  let ?cq = "setitem cq ''hcaT'' (setitem tbl ''Rand42_20200806'' [Fin 23.48359183, Fin 23.68555433])"
  have w: "well_correction cq = Inr ?cq"
    by (simp add: well_correction_def setitem2_Some [OF tbl])
  have "same_keys ?cq cq"
    using tbl h by (auto simp add: same_keys_def map_of_setitem lookup2_def)
  then have "keyed file_list gene_list ?cq"
    using k0 keyed_cong [OF sk] keyed_cong by blast
  from keyed_relative_expression [OF this] show ?thesis
    by (auto simp add: notebook_def assms w)
qed

section \<open>The claims of the specification\<close>

subsection \<open>The formulas of the four passes\<close>









text \<open>
  Claim C6, as the specification states it (finite inputs in valid groups give a fold change
  that is finite and strictly positive), fails: with a \<open>\<Delta>\<Delta>\<close>Cq of \<open>-1100\<close> \<^verbatim>\<open>math.pow\<close>
  underflows and the fold change is \<open>0.0\<close>; with a \<open>\<Delta>\<Delta>\<close>Cq of \<open>1100\<close> \<^verbatim>\<open>math.pow\<close> raises
  \<^verbatim>\<open>OverflowError\<close> and there is no output.
\<close>

theorem fold_change_zero_or_overflow:
  "(\<exists>res. relative_expression example_files example_genes deep_cq = Inr res \<and>
          lookup2 (dd_cq_mean_dict res) ''gene'' ''gene1_C'' = Some (Fin (- 1100)) \<and>
          lookup2 (dd_cq_mean_lin_dict res) ''gene'' ''gene1_C'' = Some (Fin 0)) \<and>
   relative_expression example_files example_genes high_cq = Inl OverflowError"
  by (simp add: example_files_def example_genes_def deep_cq_def high_cq_def eval_defs lookup2_def)

text \<open>
  Claim C6, amended. For four groups of cycle numbers (two replicates at least, a million at
  most, each between 0 and 500) a run that returns has stored a fold change that is finite
  and strictly positive and a SEM of the fold change that is finite and not negative.
\<close>

theorem fold_change_positive:
  fixes hs xs hr xr :: "real list"
  assumes "relative_expression fl gl cq = Inr res"
    and "G \<in> set (genes_of fl gl)" and "G \<noteq> ''hcaT''"
    and "\<forall>f\<in>set fl. \<forall>genes. map_of gl (take 8 f) = Some genes \<longrightarrow> G \<in> set genes \<longrightarrow> take 8 f = date"
    and "lookup2 cq G Gd = Some (map Fin xs)" and "cq_values xs"
    and "lookup2 cq ''hcaT'' Gd = Some (map Fin hs)" and "cq_values hs"
    and "lookup2 cq G (''Rand42_'' @ date) = Some (map Fin xr)" and "cq_values xr"
    and "lookup2 cq ''hcaT'' (''Rand42_'' @ date) = Some (map Fin hr)" and "cq_values hr"
  shows "\<exists>fold_change fold_change_sem.
           lookup2 (dd_cq_mean_lin_dict res) G Gd = Some (Fin fold_change) \<and> 0 < fold_change \<and>
           lookup2 (dd_cq_sem_lin_dict res) G Gd = Some (Fin fold_change_sem) \<and> 0 \<le> fold_change_sem"
proof -
  note xs = assms(5,6) and hs = assms(7,8) and xr = assms(9,10) and hr = assms(11,12)
  note p = pipeline_formula(7) [OF assms(1,2,3,4) xs(1) hs(1) xr(1) hr(1)]
  note m = np_mean_moderate [OF cq_values_moderate [OF xs(2)]]
    np_mean_moderate [OF cq_values_moderate [OF hs(2)]]
    np_mean_moderate [OF cq_values_moderate [OF xr(2)]]
    np_mean_moderate [OF cq_values_moderate [OF hr(2)]]
  note b = mean_cq_values [OF xs(2)] mean_cq_values [OF hs(2)] mean_cq_values [OF xr(2)]
    mean_cq_values [OF hr(2)]
  let ?dd = "(mean hs - mean xs) - (mean hr - mean xr)"
  have big: "(1000::real) \<le> 2 ^ 1000" by simp
  have d1: "fsub (Fin (mean hs)) (Fin (mean xs)) = Fin (mean hs - mean xs)"
    by (rule fsub_Fin) (use b big in linarith)
  have d2: "fsub (Fin (mean hr)) (Fin (mean xr)) = Fin (mean hr - mean xr)"
    by (rule fsub_Fin) (use b big in linarith)
  have dd: "fsub (Fin (mean hs - mean xs)) (Fin (mean hr - mean xr)) = Fin ?dd"
    by (rule fsub_Fin) (use b big in linarith)
  have ddb: "- 1000 \<le> ?dd" "?dd \<le> 1000" using b by linarith+
  then have pw: "math_pow2 (Fin ?dd) = Inr (Fin (2 powr ?dd))" by simp
  from stats_sem_cq_values [OF xs(2)] obtain sx where
    sx: "stats_sem (map Fin xs) = Fin sx" "0 \<le> sx" "sx \<le> 1000000" by blast
  from stats_sem_cq_values [OF hs(2)] obtain sh where
    sh: "stats_sem (map Fin hs) = Fin sh" "0 \<le> sh" "sh \<le> 1000000" by blast
  from stats_sem_cq_values [OF xr(2)] obtain sxr where
    sxr: "stats_sem (map Fin xr) = Fin sxr" "0 \<le> sxr" "sxr \<le> 1000000" by blast
  from stats_sem_cq_values [OF hr(2)] obtain shr where
    shr: "stats_sem (map Fin hr) = Fin shr" "0 \<le> shr" "shr \<le> 1000000" by blast
  from root_sum_squares_Fin [OF sh(2,3) sx(2,3)] obtain e1 where
    e1: "root_sum_squares (Fin sh) (Fin sx) = Fin e1" "0 \<le> e1" "e1 \<le> 2000000" by auto
  from root_sum_squares_Fin [OF shr(2,3) sxr(2,3)] obtain e2 where
    e2: "root_sum_squares (Fin shr) (Fin sxr) = Fin e2" "0 \<le> e2" "e2 \<le> 2000000" by auto
  from root_sum_squares_Fin [OF e1(2,3) e2(2,3)] obtain e where
    e: "root_sum_squares (Fin e1) (Fin e2) = Fin e" "0 \<le> e" "e \<le> 4000000" by auto
  let ?fc = "2 powr ?dd"
  have fc0: "0 < ?fc" by simp
  have "?fc \<le> 2 powr 1000" using ddb(2) by (intro powr_mono) simp_all
  then have fc1: "?fc \<le> 2 ^ 1000" by (simp add: powr_realpow [symmetric])
  have l0: "0 \<le> ln 2 * e" using e(2) by simp
  have "ln 2 * e \<le> 1 * e" using e(2) ln_2_less_1 by (intro mult_right_mono) simp_all
  then have l1: "ln 2 * e \<le> 4000000" using e(3) by simp
  have "\<bar>ln 2 * e\<bar> \<le> 2 ^ 1000"
    unfolding abs_of_nonneg [OF l0] by (rule order_trans [OF l1]) simp
  then have r1: "rnd (ln 2 * e) = Fin (ln 2 * e)" by (rule rnd_moderate)
  have s0: "0 \<le> ln 2 * e * ?fc" using l0 by simp
  have "ln 2 * e * ?fc \<le> 4000000 * 2 ^ 1000"
    using l0 l1 fc1 by (intro mult_mono) simp_all
  moreover have "(4000000::real) * 2 ^ 1000 < overflow_at" by (simp add: overflow_at_def)
  ultimately have "ln 2 * e * ?fc < overflow_at" by (rule le_less_trans)
  moreover have "- overflow_at < ln 2 * e * ?fc" using s0 overflow_at_pos by linarith
  ultimately have r2: "rnd (ln 2 * e * ?fc) = Fin (ln 2 * e * ?fc)" by (intro rnd_Fin)
  have sem: "fmul (fmul np_log2 (Fin e)) (Fin ?fc) = Fin (ln 2 * e * ?fc)"
    by (simp add: np_log2_def r1 r2)
  from p [unfolded m d1 d2 dd pw sx(1) sh(1) sxr(1) shr(1) e1(1) e2(1) e(1)]
  have "lookup2 (dd_cq_mean_lin_dict res) G Gd = Some (Fin ?fc) \<and>
        lookup2 (dd_cq_sem_lin_dict res) G Gd = Some (Fin (ln 2 * e * ?fc))"
    by (auto simp add: sem)
  with fc0 s0 show ?thesis by blast
qed

theorem fold_change_positive_witness:
  "\<not> isl (relative_expression example_files example_genes example_cq) \<and>
   cq_values [22, 22] \<and> cq_values [23, 23] \<and>
   (\<exists>fold_change fold_change_sem.
      lookup2 (dd_cq_mean_lin_dict (projr (relative_expression example_files example_genes example_cq)))
        ''gene'' ''gene1_C'' = Some (Fin fold_change) \<and> 0 < fold_change \<and>
      lookup2 (dd_cq_sem_lin_dict (projr (relative_expression example_files example_genes example_cq)))
        ''gene'' ''gene1_C'' = Some (Fin fold_change_sem) \<and> 0 \<le> fold_change_sem)"
proof -
  let ?r = "relative_expression example_files example_genes example_cq"
  have r: "?r = Inr (projr ?r)" using example_runs by simp
  have g: "''gene'' \<in> set (genes_of example_files example_genes)"
    by (simp add: example_genes_of)
  have d: "\<forall>f\<in>set example_files. \<forall>genes. map_of example_genes (take 8 f) = Some genes \<longrightarrow>
             ''gene'' \<in> set genes \<longrightarrow> take 8 f = ''20200806''"
    by (simp add: example_defs)
  have l: "lookup2 example_cq ''gene'' ''gene1_C'' = Some (map Fin [22, 22])"
    "lookup2 example_cq ''hcaT'' ''gene1_C'' = Some (map Fin [23, 23])"
    "lookup2 example_cq ''gene'' (''Rand42_'' @ ''20200806'') = Some (map Fin [23, 23])"
    "lookup2 example_cq ''hcaT'' (''Rand42_'' @ ''20200806'') = Some (map Fin [23, 23])"
    by (simp_all add: lookup2_def example_cq_def)
  have c: "cq_values [22, 22]" "cq_values [23, 23]"
    by (simp_all add: cq_values_def)
  from fold_change_positive [OF r g _ d l(1) c(1) l(2) c(2) l(3) c(2) l(4) c(2)] example_runs c
  show ?thesis by simp
qed

subsection \<open>Short and missing replicate groups\<close>

text \<open>
  Claim C2, as the specification states it (a replicate group of fewer than two values makes
  the computation fail), fails: with a single replicate of the gene under its guide the
  calculation returns.
\<close>

theorem short_group_not_rejected:
  "\<not> isl (relative_expression example_files example_genes short_cq)"
  by (simp add: example_files_def example_genes_def short_cq_def eval_defs)

text \<open>
  Claim C2, amended. A replicate group of fewer than two values does not make the
  aggregation fail: where every gene of the gene lists has its dictionary, the first pass
  returns, and the SEM that it stores for the group is \<open>nan\<close>, what \<^verbatim>\<open>stats.sem\<close> returns.
\<close>

theorem short_group_sem_nan:
  assumes "\<forall>f\<in>set fl. \<exists>genes. map_of gl (take 8 f) = Some genes \<and> (\<forall>g\<in>set genes. map_of cq g \<noteq> None)"
    and "G \<in> set (genes_of fl gl)"
    and "lookup2 cq G Gd = Some xs" and "length xs < 2"
  shows "\<exists>cq_mean_dict cq_sem_dict.
           aggregate_pass fl gl cq = Inr (cq_mean_dict, cq_sem_dict) \<and>
           lookup2 cq_sem_dict G Gd = Some NaN"
proof -
  have "\<exists>s'. for_each_gene fl gl (aggregate_gene cq) ([], []) = Inr s'"
  proof (rule for_each_gene_succeeds)
    fix f assume "f \<in> set fl"
    with assms(1) show "\<exists>genes. map_of gl (take 8 f) = Some genes \<and>
            (\<forall>g\<in>set genes. \<forall>t. \<exists>t'. aggregate_gene cq (take 8 f) g t = Inr t')"
      using aggregate_gene_succeeds by blast
  qed
  then obtain cm cs where s1: "for_each_gene fl gl (aggregate_gene cq) ([], []) = Inr (cm, cs)"
    by (cases) auto
  from aggregate_all(2) [OF s1, of G Gd] assms(2,3,4)
  have "lookup2 cs G Gd = Some NaN" by (simp add: stats_sem_short)
  with s1 show ?thesis by (simp add: aggregate_pass_def)
qed

theorem short_group_sem_nan_witness:
  "map_of example_genes (take 8 ''20200806_luna_rtqpcr_quant.csv'') = Some [''hcaT'', ''gene''] \<and>
   map_of short_cq ''hcaT'' \<noteq> None \<and> map_of short_cq ''gene'' \<noteq> None \<and>
   (\<exists>cq_mean_dict cq_sem_dict.
      aggregate_pass example_files example_genes short_cq = Inr (cq_mean_dict, cq_sem_dict) \<and>
      lookup2 cq_sem_dict ''gene'' ''gene1_C'' = Some NaN)"
proof -
  have k: "\<forall>f\<in>set example_files. \<exists>genes. map_of example_genes (take 8 f) = Some genes \<and>
      (\<forall>g\<in>set genes. map_of short_cq g \<noteq> None)"
    by (simp add: example_files_def example_genes_def short_cq_def)
  have g: "''gene'' \<in> set (genes_of example_files example_genes)"
    by (simp add: example_genes_of)
  have l: "lookup2 short_cq ''gene'' ''gene1_C'' = Some [Fin 22]"
    by (simp add: lookup2_def short_cq_def)
  from short_group_sem_nan [OF k g l] show ?thesis
    by (simp add: example_genes_def short_cq_def)
qed

text \<open>
  Claim C3, as the specification states it (an absent reference group makes the computation
  fail), fails on the notebook: the key initialization creates every group, so a file
  without any row of hcaT under the guide of the gene leaves an empty group, and the run
  returns, with \<open>nan\<close> as the fold change.
\<close>

theorem omitted_reference_group_not_rejected:
  "\<not> isl (pipeline py_float example_fs example_files example_genes) \<and>
   lookup2 (dd_cq_mean_lin_dict (projr (pipeline py_float example_fs example_files example_genes)))
     ''gene'' ''gene1_C'' = Some NaN"
  by (simp add: pipeline_def example_init example_import)
    (simp add: example_files_def example_genes_def example_imported_cq_def eval_defs lookup2_def)

text \<open>
  Claim C3, amended. For a gene \<open>G\<close> other than hcaT in the gene list of a file and a guide
  \<open>Gd\<close> of \<open>G\<close>: where the dictionary of hcaT has no key \<open>Gd\<close>, or the dictionary of \<open>G\<close> has no
  key \<open>Rand42_date\<close> for the date of the file, the calculation fails with \<^verbatim>\<open>KeyError\<close>; where
  the keys are in place and the group of hcaT under \<open>Gd\<close> has no replicate, the first two
  passes return, the mean of that group and the \<open>\<Delta>\<close>Cq of \<open>G\<close> under \<open>Gd\<close> being \<open>nan\<close>, and the
  calculation does not fail with \<^verbatim>\<open>KeyError\<close>.
\<close>

theorem missing_reference_key_error:
  assumes "f \<in> set fl" and "map_of gl (take 8 f) = Some genes" and "G \<in> set genes"
    and "G \<noteq> ''hcaT''" and "lookup2 cq G Gd = Some xs"
  shows "(lookup2 cq ''hcaT'' Gd = None \<or> lookup2 cq G (''Rand42_'' @ take 8 f) = None \<longrightarrow>
            relative_expression fl gl cq = Inl KeyError) \<and>
         (keyed fl gl cq \<and> lookup2 cq ''hcaT'' Gd = Some [] \<longrightarrow>
            (\<exists>cq_mean_dict cq_sem_dict d_cq_mean_dict d_cq_sem_dict.
               aggregate_pass fl gl cq = Inr (cq_mean_dict, cq_sem_dict) \<and>
               normalize_pass fl gl cq_mean_dict cq_sem_dict = Inr (d_cq_mean_dict, d_cq_sem_dict) \<and>
               lookup2 cq_mean_dict ''hcaT'' Gd = Some NaN \<and>
               lookup2 d_cq_mean_dict G Gd = Some NaN) \<and>
            relative_expression fl gl cq \<noteq> Inl KeyError)"
proof (intro conjI impI)
  assume m: "lookup2 cq ''hcaT'' Gd = None \<or> lookup2 cq G (''Rand42_'' @ take 8 f) = None"
  have "\<not> keyed fl gl cq"
  proof
    assume "keyed fl gl cq"
    from this [unfolded keyed_iff, rule_format, OF assms(1)] assms(2,3,4,5)
    have "lookup2 cq ''hcaT'' Gd \<noteq> None \<and> lookup2 cq G (''Rand42_'' @ take 8 f) \<noteq> None"
      by auto
    with m show False by auto
  qed
  then show "relative_expression fl gl cq = Inl KeyError" by (simp add: relative_expression_fails_iff)
next
  assume k: "keyed fl gl cq \<and> lookup2 cq ''hcaT'' Gd = Some []"
  from keyed_passes [OF k [THEN conjunct1]] obtain cm cs dm ds where
    s1: "for_each_gene fl gl (aggregate_gene cq) ([], []) = Inr (cm, cs)" and
    s2: "for_each_gene fl gl (normalize_gene cm cs) ([], []) = Inr (dm, ds)"
    by blast
  note a = aggregate_all [OF s1]
  have G: "G \<in> set (genes_of fl gl)" using assms(1,2,3) by (auto simp add: in_genes_of)
  from k [THEN conjunct1, unfolded keyed_iff, rule_format, OF assms(1)] assms(2,3,4,5)
  have H: "''hcaT'' \<in> set (genes_of fl gl)" by auto
  have h: "lookup2 cm ''hcaT'' Gd = Some NaN"
    using a(1) [of "''hcaT''" Gd] H k by (simp add: np_mean_Nil)
  have g: "lookup2 cm G Gd = Some (np_mean xs)"
    using a(1) [of G Gd] G assms(5) by simp
  have "lookup2 dm G Gd = Some NaN"
    using normalize_all [OF s2 G assms(4)] h g by (simp add: fsub_def)
  with s1 s2 h show "\<exists>cq_mean_dict cq_sem_dict d_cq_mean_dict d_cq_sem_dict.
               aggregate_pass fl gl cq = Inr (cq_mean_dict, cq_sem_dict) \<and>
               normalize_pass fl gl cq_mean_dict cq_sem_dict = Inr (d_cq_mean_dict, d_cq_sem_dict) \<and>
               lookup2 cq_mean_dict ''hcaT'' Gd = Some NaN \<and>
               lookup2 d_cq_mean_dict G Gd = Some NaN"
    by (simp add: aggregate_pass_def normalize_pass_def)
next
  assume k: "keyed fl gl cq \<and> lookup2 cq ''hcaT'' Gd = Some []"
  then show "relative_expression fl gl cq \<noteq> Inl KeyError"
    by (simp add: relative_expression_fails_iff)
qed

theorem missing_reference_key_error_witness:
  "relative_expression example_files example_genes missing_cq = Inl KeyError \<and>
   keyed example_files example_genes example_imported_cq \<and>
   (\<exists>cq_mean_dict cq_sem_dict d_cq_mean_dict d_cq_sem_dict.
      aggregate_pass example_files example_genes example_imported_cq = Inr (cq_mean_dict, cq_sem_dict) \<and>
      normalize_pass example_files example_genes cq_mean_dict cq_sem_dict =
        Inr (d_cq_mean_dict, d_cq_sem_dict) \<and>
      lookup2 cq_mean_dict ''hcaT'' ''gene1_C'' = Some NaN \<and>
      lookup2 d_cq_mean_dict ''gene'' ''gene1_C'' = Some NaN) \<and>
   relative_expression example_files example_genes example_imported_cq \<noteq> Inl KeyError"
proof -
  have f: "''20200806_luna_rtqpcr_quant.csv'' \<in> set example_files" by (simp add: example_files_def)
  have g: "map_of example_genes (take 8 ''20200806_luna_rtqpcr_quant.csv'') = Some [''hcaT'', ''gene'']"
    by (simp add: example_genes_def)
  have l: "lookup2 missing_cq ''gene'' ''gene1_C'' = Some [Fin 22, Fin 22]"
    by (simp add: lookup2_def missing_cq_def)
  have m: "lookup2 missing_cq ''hcaT'' ''gene1_C'' = None"
    by (simp add: lookup2_def missing_cq_def)
  have l': "lookup2 example_imported_cq ''gene'' ''gene1_C'' = Some [Fin 22, Fin 22]"
    by (simp add: lookup2_def example_imported_cq_def)
  have e: "lookup2 example_imported_cq ''hcaT'' ''gene1_C'' = Some []"
    by (simp add: lookup2_def example_imported_cq_def)
  have k: "keyed example_files example_genes example_imported_cq"
    by (simp add: keyed_def example_files_def example_genes_def example_imported_cq_def genes_of_def
        dict_keys_def lookup2_def)
  from missing_reference_key_error [OF f g _ _ l, THEN conjunct1] m
  have 1: "relative_expression example_files example_genes missing_cq = Inl KeyError" by simp
  from missing_reference_key_error [OF f g _ _ l', THEN conjunct2] k e
  have 2: "(\<exists>cq_mean_dict cq_sem_dict d_cq_mean_dict d_cq_sem_dict.
      aggregate_pass example_files example_genes example_imported_cq = Inr (cq_mean_dict, cq_sem_dict) \<and>
      normalize_pass example_files example_genes cq_mean_dict cq_sem_dict =
        Inr (d_cq_mean_dict, d_cq_sem_dict) \<and>
      lookup2 cq_mean_dict ''hcaT'' ''gene1_C'' = Some NaN \<and>
      lookup2 d_cq_mean_dict ''gene'' ''gene1_C'' = Some NaN) \<and>
   relative_expression example_files example_genes example_imported_cq \<noteq> Inl KeyError" by simp
  from 1 k 2 show ?thesis by simp
qed

subsection \<open>The import of the rows\<close>




text \<open>
  Claim C9. The first line of a file is read and dropped, whatever it holds: the import is
  the loop over the other lines. A row of six fields or more whose gene is not in the gene
  list of the file, or whose guide is not a key of the dictionary of its gene, leaves the
  dictionary as it is and raises nothing.
\<close>

theorem header_and_unlisted_rows:
  assumes "split (CHR '','') line = sp"
  shows "import_file pf gl date (header # rows) cq = for_each rows (import_line pf gl date) cq \<and>
         (6 \<le> length sp \<and> map_of gl date = Some genes \<and> sp ! 2 \<notin> set genes \<longrightarrow>
            import_line pf gl date line cq = Inr cq) \<and>
         (6 \<le> length sp \<and> map_of gl date = Some genes \<and> sp ! 2 \<in> set genes \<and>
          map_of cq (sp ! 2) = Some tbl \<and> sp ! 4 \<notin> set (dict_keys tbl) \<longrightarrow>
            import_line pf gl date line cq = Inr cq)"
  by (auto simp add: import_file_def import_line_cases [OF assms] set_dict_keys domIff
      split: option.splits)

theorem header_and_unlisted_rows_witness:
  "import_file py_float example_genes ''20200806'' [''A00,SYBR,gene,Unkn,gene1_C,99.0,x'']
     example_cq = Inr example_cq \<and>
   import_line py_float example_genes ''20200806'' ''A01,SYBR,ribB,Unkn,ribB1_C,22.5,x'' example_cq =
     Inr example_cq \<and>
   import_line py_float example_genes ''20200806'' ''A01,SYBR,gene,Unkn,gene2_C,22.5,x'' example_cq =
     Inr example_cq"
proof -
  have s1: "split (CHR '','') ''A01,SYBR,ribB,Unkn,ribB1_C,22.5,x'' =
              [''A01'', ''SYBR'', ''ribB'', ''Unkn'', ''ribB1_C'', ''22.5'', ''x'']"
    by simp
  have s2: "split (CHR '','') ''A01,SYBR,gene,Unkn,gene2_C,22.5,x'' =
              [''A01'', ''SYBR'', ''gene'', ''Unkn'', ''gene2_C'', ''22.5'', ''x'']"
    by simp
  from header_and_unlisted_rows [OF s1, where pf = py_float and gl = example_genes
      and date = "''20200806''" and header = "''A00,SYBR,gene,Unkn,gene1_C,99.0,x''" and rows = "[]"
      and cq = example_cq and genes = "[''hcaT'', ''gene'']"]
  have 1: "import_file py_float example_genes ''20200806'' [''A00,SYBR,gene,Unkn,gene1_C,99.0,x'']
             example_cq = Inr example_cq"
    and 2: "import_line py_float example_genes ''20200806'' ''A01,SYBR,ribB,Unkn,ribB1_C,22.5,x''
             example_cq = Inr example_cq"
    by (simp_all add: example_genes_def)
  from header_and_unlisted_rows [OF s2, where pf = py_float and gl = example_genes
      and date = "''20200806''" and cq = example_cq and genes = "[''hcaT'', ''gene'']"
      and tbl = "[(''gene1_C'', [Fin 22, Fin 22]), (''Rand42_20200806'', [Fin 23, Fin 23])]"]
  have 3: "import_line py_float example_genes ''20200806'' ''A01,SYBR,gene,Unkn,gene2_C,22.5,x''
             example_cq = Inr example_cq"
    by (simp add: example_genes_def example_cq_def dict_keys_def)
  from 1 2 3 show ?thesis by simp
qed

text \<open>
  Claim C7, as the specification states it (a row that cannot be parsed as gene, guide and
  numeric Cq makes the import fail), fails: a row whose Cq is not a number, under a guide
  that is not a key of its gene, is passed over.
\<close>

theorem unparsable_row_skipped:
  "py_float ''n/a'' = None \<and>
   import_line py_float example_genes ''20200806'' ''A01,SYBR,gene,Unkn,gene2_C,n/a,x'' example_cq =
     Inr example_cq"
  by (simp add: example_genes_def example_cq_def import_defs parse_defs)

text \<open>
  Claim C7, amended. With the gene list of the date and the dictionary of every gene of the
  list in place, a row makes the import fail in two cases only: with \<^verbatim>\<open>IndexError\<close> when it
  has fewer than three fields, or a gene and fewer than six fields; with \<^verbatim>\<open>ValueError\<close> when
  it has six fields or more, a gene of the list, a guide among the keys of the gene, and a
  Cq field that is not empty and that \<^verbatim>\<open>float\<close> rejects. Every other row raises nothing: it
  leaves the dictionary as it is, or has its parsed Cq appended.
\<close>

theorem import_line_failures:
  assumes "split (CHR '','') line = sp" and "map_of gl date = Some genes"
    and "\<forall>g\<in>set genes. map_of cq g \<noteq> None"
  shows "(import_line pf gl date line cq = Inl e \<longleftrightarrow>
           e = IndexError \<and> (length sp < 3 \<or> (sp ! 2 \<noteq> [] \<and> length sp < 6)) \<or>
           e = ValueError \<and> 6 \<le> length sp \<and> sp ! 2 \<noteq> [] \<and> sp ! 5 \<noteq> [] \<and> sp ! 2 \<in> set genes \<and>
             lookup2 cq (sp ! 2) (sp ! 4) \<noteq> None \<and> pf (sp ! 5) = None) \<and>
         (import_line pf gl date line cq = Inr cq' \<longrightarrow>
            cq' = cq \<or>
            (\<exists>tbl xs v. map_of cq (sp ! 2) = Some tbl \<and> map_of tbl (sp ! 4) = Some xs \<and>
               pf (sp ! 5) = Some v \<and> cq' = setitem cq (sp ! 2) (setitem tbl (sp ! 4) (xs @ [v]))))"
  using assms(2,3)
  by (auto simp add: import_line_cases [OF assms(1)] lookup2_def split: option.splits if_splits)

theorem import_line_failures_witness:
  "import_line py_float example_genes ''20200806'' ''A01,SYBR,gene,Unkn,gene1_C,n/a,x'' example_cq =
     Inl ValueError \<and>
   import_line py_float example_genes ''20200806'' ''A01,SYBR'' example_cq = Inl IndexError"
proof -
  have s1: "split (CHR '','') ''A01,SYBR,gene,Unkn,gene1_C,n/a,x'' =
              [''A01'', ''SYBR'', ''gene'', ''Unkn'', ''gene1_C'', ''n/a'', ''x'']"
    by simp
  have s2: "split (CHR '','') ''A01,SYBR'' = [''A01'', ''SYBR'']"
    by simp
  have g: "map_of example_genes ''20200806'' = Some [''hcaT'', ''gene'']"
    by (simp add: example_genes_def)
  have c: "\<forall>g\<in>set [''hcaT'', ''gene'']. map_of example_cq g \<noteq> None"
    by (simp add: example_cq_def)
  have p: "py_float ''n/a'' = None" by (simp add: parse_defs)
  from import_line_failures [OF s1 g c, where pf = py_float and e = ValueError, THEN conjunct1] p
  have 1: "import_line py_float example_genes ''20200806'' ''A01,SYBR,gene,Unkn,gene1_C,n/a,x''
             example_cq = Inl ValueError"
    by (simp add: lookup2_def example_cq_def)
  from import_line_failures [OF s2 g c, where pf = py_float and e = IndexError, THEN conjunct1]
  have 2: "import_line py_float example_genes ''20200806'' ''A01,SYBR'' example_cq = Inl IndexError"
    by simp
  from 1 2 show ?thesis by simp
qed

subsection \<open>The keys of the reference gene\<close>

text \<open>
  Claim C10. After the key initialization, every guide key of a gene \<open>G\<close> other than hcaT is
  a key of hcaT as well; and whatever the import then reads, the first two passes of the
  calculation on the imported replicates return, with the mean of hcaT under that guide and
  the \<open>\<Delta>\<close>Cq of \<open>G\<close> under that guide in place, and the calculation does not fail with
  \<^verbatim>\<open>KeyError\<close>: no lookup of the reference gene under the guide of a gene can miss.
\<close>

theorem reference_keys_by_construction:
  assumes "init_keys fl gl = Inr cq"
    and "G \<noteq> ''hcaT''" and "map_of cq G = Some tG" and "guide \<in> set (dict_keys tG)"
  shows "(\<exists>tH. map_of cq ''hcaT'' = Some tH \<and> guide \<in> set (dict_keys tH)) \<and>
         (\<forall>pf fs cq'. import_data pf fs fl gl cq = Inr cq' \<longrightarrow>
            (\<exists>cq_mean_dict cq_sem_dict d_cq_mean_dict d_cq_sem_dict.
               aggregate_pass fl gl cq' = Inr (cq_mean_dict, cq_sem_dict) \<and>
               normalize_pass fl gl cq_mean_dict cq_sem_dict = Inr (d_cq_mean_dict, d_cq_sem_dict) \<and>
               lookup2 cq_mean_dict ''hcaT'' guide \<noteq> None \<and>
               lookup2 d_cq_mean_dict G guide \<noteq> None) \<and>
            relative_expression fl gl cq' \<noteq> Inl KeyError)"
proof (intro conjI allI impI)
  note i = init_keys_Inr [OF assms(1)]
  have g: "lookup2 cq G guide \<noteq> None" using assms(3,4) by (simp add: keys_lookup2)
  from i(2) [OF assms(2) g] have h: "lookup2 cq ''hcaT'' guide \<noteq> None" .
  then obtain tH where tH: "map_of cq ''hcaT'' = Some tH"
    by (auto simp add: lookup2_def split: option.splits)
  with h show "\<exists>tH. map_of cq ''hcaT'' = Some tH \<and> guide \<in> set (dict_keys tH)"
    by (simp add: keys_lookup2)
  fix pf fs cq'
  assume imp: "import_data pf fs fl gl cq = Inr cq'"
  note sk = import_data_keys [OF imp]
  have k: "keyed fl gl cq'" using init_keys_keyed [OF assms(1)] keyed_cong [OF sk] by simp
  then show "relative_expression fl gl cq' \<noteq> Inl KeyError"
    by (simp add: relative_expression_fails_iff)
  from keyed_passes [OF k] obtain cm cs dm ds where
    s1: "for_each_gene fl gl (aggregate_gene cq') ([], []) = Inr (cm, cs)" and
    s2: "for_each_gene fl gl (normalize_gene cm cs) ([], []) = Inr (dm, ds)"
    by blast
  have H: "''hcaT'' \<in> set (genes_of fl gl)" using tH i(1) by auto
  have GG: "G \<in> set (genes_of fl gl)" using assms(3) i(1) by auto
  have "lookup2 cq' ''hcaT'' guide \<noteq> None" using sk h by (simp add: same_keys_def)
  then have 1: "lookup2 cm ''hcaT'' guide \<noteq> None"
    using aggregate_all(1) [OF s1, of "''hcaT''" guide] H by auto
  have "lookup2 cq' G guide \<noteq> None" using sk g by (simp add: same_keys_def)
  then have "lookup2 cm G guide \<noteq> None"
    using aggregate_all(1) [OF s1, of G guide] GG by auto
  with 1 have 2: "lookup2 dm G guide \<noteq> None"
    using normalize_all [OF s2 GG assms(2)] by auto
  from s1 s2 1 2 show "\<exists>cq_mean_dict cq_sem_dict d_cq_mean_dict d_cq_sem_dict.
               aggregate_pass fl gl cq' = Inr (cq_mean_dict, cq_sem_dict) \<and>
               normalize_pass fl gl cq_mean_dict cq_sem_dict = Inr (d_cq_mean_dict, d_cq_sem_dict) \<and>
               lookup2 cq_mean_dict ''hcaT'' guide \<noteq> None \<and>
               lookup2 d_cq_mean_dict G guide \<noteq> None"
    by (simp add: aggregate_pass_def normalize_pass_def)
qed

theorem reference_keys_by_construction_witness:
  "init_keys example_files example_genes = Inr example_initial_cq \<and>
   (\<exists>tH. map_of example_initial_cq ''hcaT'' = Some tH \<and> ''gene1_C'' \<in> set (dict_keys tH)) \<and>
   import_data py_float example_fs example_files example_genes example_initial_cq =
     Inr example_imported_cq \<and>
   (\<exists>cq_mean_dict cq_sem_dict d_cq_mean_dict d_cq_sem_dict.
      aggregate_pass example_files example_genes example_imported_cq = Inr (cq_mean_dict, cq_sem_dict) \<and>
      normalize_pass example_files example_genes cq_mean_dict cq_sem_dict =
        Inr (d_cq_mean_dict, d_cq_sem_dict) \<and>
      lookup2 cq_mean_dict ''hcaT'' ''gene1_C'' \<noteq> None \<and>
      lookup2 d_cq_mean_dict ''gene'' ''gene1_C'' \<noteq> None) \<and>
   relative_expression example_files example_genes example_imported_cq \<noteq> Inl KeyError"
proof -
  have t: "map_of example_initial_cq ''gene'' =
             Some [(''gene1_C'', []), (''gene3_C'', []), (''Rand42_20200806'', [])]"
    by (simp add: example_initial_cq_def)
  have k: "''gene1_C'' \<in> set (dict_keys [(''gene1_C'', []), (''gene3_C'', []), (''Rand42_20200806'', [])])"
    by (simp add: dict_keys_def)
  from reference_keys_by_construction [OF example_init _ t k] example_init example_import
  show ?thesis by simp
qed

end
